theory Spec2Isabelle
  imports Complex_Main
begin

section \<open>Python values the compiler relies on\<close>

text \<open>
  Source text and operand text are Python \<open>str\<close> values. A HOL \<open>char\<close> stands for the
  code point of the same number, so the model covers every source text over the code
  points 0 to 255. Python's \<open>None\<close> for an optional string is \<open>None :: string option\<close>.
\<close>

definition dquote :: char where
  "dquote = CHR 0x22"

definition squote :: char where
  "squote = CHR 0x27"

definition digit_char :: "nat \<Rightarrow> char" where
  "digit_char d = ''0123456789'' ! d"

text \<open>\<open>str(n)\<close> for a non-negative Python int.\<close>

fun str_nat :: "nat \<Rightarrow> string" where
  "str_nat n = (if n < 10 then [digit_char n] else str_nat (n div 10) @ [digit_char (n mod 10)])"

declare str_nat.simps [simp del]

text \<open>\<open>str(n)\<close> for any Python int.\<close>

definition str_int :: "int \<Rightarrow> string" where
  "str_int i = (if i < 0 then CHR ''-'' # str_nat (nat (- i)) else str_nat (nat i))"

definition startswith :: "string \<Rightarrow> string \<Rightarrow> bool" where
  "startswith s p = (take (length p) s = p)"

definition endswith :: "string \<Rightarrow> string \<Rightarrow> bool" where
  "endswith s p = (length p \<le> length s \<and> drop (length s - length p) s = p)"

text \<open>Truthiness of an optional string: \<open>None\<close> and the empty string are falsy.\<close>

definition truthy :: "string option \<Rightarrow> bool" where
  "truthy v = (case v of None \<Rightarrow> False | Some s \<Rightarrow> s \<noteq> [])"

text \<open>
  Python's built-in \<open>float\<close> is not part of the repository. The functions that use it take
  its operations as a parameter, so every theorem that quantifies over programs or
  instruction sequences holds for any float arithmetic whatever:
  \<^item> \<open>float_of_str s\<close> is \<open>float(s)\<close>, \<open>None\<close> when Python raises \<open>ValueError\<close>;
  \<^item> \<open>str_of_float x\<close> is \<open>str(x)\<close>;
  \<^item> \<open>fadd\<close>, \<open>fsub\<close>, \<open>fmul\<close>, \<open>fdiv\<close> are \<open>+\<close>, \<open>-\<close>, \<open>*\<close>, \<open>/\<close> (the last one is only
    called with a divisor that is not zero);
  \<^item> \<open>feq_zero x\<close> is \<open>x == 0\<close>;
  \<^item> \<open>int_of_float x\<close> is \<open>int(x)\<close>, \<open>None\<close> when Python raises (infinities and NaN);
  \<^item> \<open>feq_int x n\<close> is \<open>x == n\<close> for an int \<open>n\<close>.
\<close>

record 'f float_ops =
  float_of_str :: "string \<Rightarrow> 'f option"
  str_of_float :: "'f \<Rightarrow> string"
  fadd :: "'f \<Rightarrow> 'f \<Rightarrow> 'f"
  fsub :: "'f \<Rightarrow> 'f \<Rightarrow> 'f"
  fmul :: "'f \<Rightarrow> 'f \<Rightarrow> 'f"
  fdiv :: "'f \<Rightarrow> 'f \<Rightarrow> 'f"
  feq_zero :: "'f \<Rightarrow> bool"
  int_of_float :: "'f \<Rightarrow> int option"
  feq_int :: "'f \<Rightarrow> int \<Rightarrow> bool"

subsection \<open>A concrete float arithmetic for the scenarios\<close>

text \<open>
  The scenarios that start from source text need one concrete \<open>float\<close>. In the instance
  below \<open>Finite r\<close> stands for the binary64 value nearest to the rational \<open>r\<close>, and
  arithmetic is done on \<open>r\<close> without rounding. It agrees with Python wherever the operands
  and the result are integers of magnitude below \<open>2 ^ 53\<close>, which is all that the
  scenarios evaluate; \<open>str\<close> is given for integral values below \<open>10 ^ 16\<close>, infinities
  and NaN only.

  \<open>float(s)\<close> strips the code points 9 to 13 and 32 from both ends, and the next-line
  and no-break-space characters 133 and 160, which it first turns into spaces; the
  separators 28 to 31 are not stripped. It then accepts an optional sign followed by
  \<open>inf\<close>, \<open>infinity\<close> or \<open>nan\<close> in any letter case, or by a decimal number
  \<open>[digits] . digits\<close> or \<open>digits [.]\<close> with an optional exponent \<open>(e|E) [sign] digits\<close>,
  where \<open>digits\<close> may hold single underscores between two digits.
\<close>

datatype pyfloat = Finite rat | PosInf | NegInf | NaN

definition float_space :: "char \<Rightarrow> bool" where
  "float_space c = ((of_char c :: nat) \<in> set [9, 10, 11, 12, 13, 32, 133, 160])"

definition strip :: "string \<Rightarrow> string" where
  "strip s = rev (dropWhile float_space (rev (dropWhile float_space s)))"

definition is_ascii_digit :: "char \<Rightarrow> bool" where
  "is_ascii_digit c = (48 \<le> (of_char c :: nat) \<and> (of_char c :: nat) \<le> 57)"

definition digit_value :: "char \<Rightarrow> nat" where
  "digit_value c = of_char c - 48"

definition lower_ascii :: "char \<Rightarrow> char" where
  "lower_ascii c = (if 65 \<le> (of_char c :: nat) \<and> (of_char c :: nat) \<le> 90 then char_of (of_char c + (32 :: nat)) else c)"

text \<open>
  The digits of a digit part, read from the left: the value so far and the number of
  digits so far. \<open>None\<close> when the text is not a digit part.
\<close>

fun digits_acc :: "nat \<times> nat \<Rightarrow> string \<Rightarrow> (nat \<times> nat) option" where
  "digits_acc (v, k) [] = Some (v, k)"
| "digits_acc (v, k) [c] = (if is_ascii_digit c then Some (10 * v + digit_value c, k + 1) else None)"
| "digits_acc (v, k) (c # d # cs) =
     (if is_ascii_digit c then digits_acc (10 * v + digit_value c, k + 1) (d # cs)
      else if c = CHR ''_'' \<and> is_ascii_digit d then digits_acc (v, k) (d # cs)
      else None)"

definition digitpart :: "string \<Rightarrow> (nat \<times> nat) option" where
  "digitpart s =
     (case s of
        [] \<Rightarrow> None
      | c # cs \<Rightarrow> if is_ascii_digit c then digits_acc (0, 0) s else None)"

definition mantissa :: "string \<Rightarrow> rat option" where
  "mantissa s =
     (let a = takeWhile (\<lambda>c. c \<noteq> CHR ''.'') s;
          b = drop (length a + 1) s
      in if length a = length s then map_option (\<lambda>(v, k). of_nat v) (digitpart a)
         else if a = [] then map_option (\<lambda>(v, k). of_nat v / 10 ^ k) (digitpart b)
         else if b = [] then map_option (\<lambda>(v, k). of_nat v) (digitpart a)
         else (case digitpart a of
                 None \<Rightarrow> None
               | Some (va, ka) \<Rightarrow>
                   (case digitpart b of
                      None \<Rightarrow> None
                    | Some (vb, kb) \<Rightarrow> Some (of_nat va + of_nat vb / 10 ^ kb))))"

definition exponent :: "string \<Rightarrow> int option" where
  "exponent s =
     (case s of
        [] \<Rightarrow> None
      | c # cs \<Rightarrow>
          if c = CHR ''-'' then map_option (\<lambda>(v, k). - int v) (digitpart cs)
          else if c = CHR ''+'' then map_option (\<lambda>(v, k). int v) (digitpart cs)
          else map_option (\<lambda>(v, k). int v) (digitpart s))"

definition floatnumber :: "string \<Rightarrow> rat option" where
  "floatnumber s =
     (let m = takeWhile (\<lambda>c. c \<noteq> CHR ''e'' \<and> c \<noteq> CHR ''E'') s;
          e = drop (length m + 1) s
      in if length m = length s then mantissa m
         else (case mantissa m of
                 None \<Rightarrow> None
               | Some r \<Rightarrow>
                   (case exponent e of
                      None \<Rightarrow> None
                    | Some x \<Rightarrow> Some (if x \<ge> 0 then r * 10 ^ nat x else r / 10 ^ nat (- x)))))"

definition absfloatvalue :: "string \<Rightarrow> pyfloat option" where
  "absfloatvalue s =
     (if map lower_ascii s = ''inf'' \<or> map lower_ascii s = ''infinity'' then Some PosInf
      else if map lower_ascii s = ''nan'' then Some NaN
      else map_option Finite (floatnumber s))"

fun py_neg :: "pyfloat \<Rightarrow> pyfloat" where
  "py_neg (Finite r) = Finite (- r)"
| "py_neg PosInf = NegInf"
| "py_neg NegInf = PosInf"
| "py_neg NaN = NaN"

definition py_float :: "string \<Rightarrow> pyfloat option" where
  "py_float s =
     (case strip s of
        [] \<Rightarrow> None
      | c # cs \<Rightarrow>
          if c = CHR ''-'' then map_option py_neg (absfloatvalue cs)
          else if c = CHR ''+'' then absfloatvalue cs
          else absfloatvalue (c # cs))"

fun py_add :: "pyfloat \<Rightarrow> pyfloat \<Rightarrow> pyfloat" where
  "py_add (Finite a) (Finite b) = Finite (a + b)"
| "py_add NaN y = NaN"
| "py_add x NaN = NaN"
| "py_add PosInf NegInf = NaN"
| "py_add NegInf PosInf = NaN"
| "py_add PosInf y = PosInf"
| "py_add NegInf y = NegInf"
| "py_add x PosInf = PosInf"
| "py_add x NegInf = NegInf"

definition py_sub :: "pyfloat \<Rightarrow> pyfloat \<Rightarrow> pyfloat" where
  "py_sub x y = py_add x (py_neg y)"

definition py_sign :: "pyfloat \<Rightarrow> int" where
  "py_sign x = (case x of Finite r \<Rightarrow> sgn \<lfloor>sgn r\<rfloor> | PosInf \<Rightarrow> 1 | NegInf \<Rightarrow> - 1 | NaN \<Rightarrow> 0)"

definition py_inf :: "int \<Rightarrow> pyfloat" where
  "py_inf s = (if s > 0 then PosInf else if s < 0 then NegInf else NaN)"

fun py_mul :: "pyfloat \<Rightarrow> pyfloat \<Rightarrow> pyfloat" where
  "py_mul (Finite a) (Finite b) = Finite (a * b)"
| "py_mul NaN y = NaN"
| "py_mul x NaN = NaN"
| "py_mul x y = py_inf (py_sign x * py_sign y)"

fun py_div :: "pyfloat \<Rightarrow> pyfloat \<Rightarrow> pyfloat" where
  "py_div (Finite a) (Finite b) = Finite (a / b)"
| "py_div NaN y = NaN"
| "py_div x NaN = NaN"
| "py_div (Finite a) y = Finite 0"
| "py_div x (Finite b) = py_inf (py_sign x * py_sign (Finite b))"
| "py_div x y = NaN"

definition py_int :: "pyfloat \<Rightarrow> int option" where
  "py_int x = (case x of Finite r \<Rightarrow> Some (if r \<ge> 0 then \<lfloor>r\<rfloor> else \<lceil>r\<rceil>) | PosInf \<Rightarrow> None | NegInf \<Rightarrow> None | NaN \<Rightarrow> None)"

definition py_str :: "pyfloat \<Rightarrow> string" where
  "py_str x =
     (case x of
        Finite r \<Rightarrow> if r = of_int \<lfloor>r\<rfloor> \<and> \<bar>r\<bar> < 10 ^ 16 then str_int \<lfloor>r\<rfloor> @ ''.0'' else undefined
      | PosInf \<Rightarrow> ''inf''
      | NegInf \<Rightarrow> ''-inf''
      | NaN \<Rightarrow> ''nan'')"

definition py_floats :: "pyfloat float_ops" where
  "py_floats = \<lparr>float_of_str = py_float, str_of_float = py_str,
     fadd = py_add, fsub = py_sub, fmul = py_mul, fdiv = py_div,
     feq_zero = (\<lambda>x. x = Finite 0),
     int_of_float = py_int,
     feq_int = (\<lambda>x n. x = Finite (of_int n))\<rparr>"

section \<open>Three-address code (intermediate_code.py)\<close>

record ThreeAddressCode =
  operation :: string
  arg1 :: "string option"
  arg2 :: "string option"
  result :: "string option"

definition TAC :: "string \<Rightarrow> string option \<Rightarrow> string option \<Rightarrow> string option \<Rightarrow> ThreeAddressCode" where
  "TAC opn a1 a2 r = \<lparr>operation = opn, arg1 = a1, arg2 = a2, result = r\<rparr>"

section \<open>The optimizer (rl_optimizer.py)\<close>

text \<open>
  The fields of an \<open>RLOptimizer\<close> object. The pass driver reads and writes
  \<open>variable_usage\<close> and \<open>variable_defs\<close>; the other fields belong to the Q-learning
  machinery.
\<close>

record 'f RLOptimizer =
  q_table :: "string \<rightharpoonup> (string \<rightharpoonup> 'f)"
  learning_rate :: 'f
  discount_factor :: 'f
  epsilon :: 'f
  optimization_history :: "(string \<times> 'f) list"
  variable_usage :: "string \<rightharpoonup> nat set"
  variable_defs :: "string \<rightharpoonup> nat set"

definition is_constant :: "'f float_ops \<Rightarrow> string option \<Rightarrow> bool" where
  "is_constant fl v =
     (case v of
        None \<Rightarrow> False
      | Some s \<Rightarrow>
          (case float_of_str fl s of
             Some x \<Rightarrow> True
           | None \<Rightarrow> startswith s [dquote] \<and> endswith s [dquote]))"

definition analyze_defs :: "nat \<Rightarrow> ThreeAddressCode \<Rightarrow>
    (string \<rightharpoonup> nat set) \<times> (string \<rightharpoonup> nat set) \<Rightarrow> (string \<rightharpoonup> nat set) \<times> (string \<rightharpoonup> nat set)" where
  "analyze_defs i instr ud =
     (case ud of (usage, defs) \<Rightarrow>
        (case result instr of
           None \<Rightarrow> (usage, defs)
         | Some r \<Rightarrow>
             if r \<noteq> [] \<and> operation instr \<notin> set [''LABEL'', ''GOTO'', ''IF_FALSE'', ''PRINT''] then
               (let defs1 = (if defs r = None then defs(r \<mapsto> {}) else defs);
                    defs2 = defs1(r \<mapsto> insert i (the (defs1 r)));
                    usage1 = (if usage r = None then usage(r \<mapsto> {}) else usage)
                in (usage1, defs2))
             else (usage, defs)))"

definition analyze_arg :: "'f float_ops \<Rightarrow> nat \<Rightarrow> string option \<Rightarrow>
    (string \<rightharpoonup> nat set) \<Rightarrow> (string \<rightharpoonup> nat set)" where
  "analyze_arg fl i a usage =
     (case a of
        None \<Rightarrow> usage
      | Some s \<Rightarrow>
          if s \<noteq> [] \<and> \<not> is_constant fl (Some s) then
            (let usage1 = (if usage s = None then usage(s \<mapsto> {}) else usage)
             in usage1(s \<mapsto> insert i (the (usage1 s))))
          else usage)"

definition analyze_instr :: "'f float_ops \<Rightarrow> nat \<times> ThreeAddressCode \<Rightarrow>
    (string \<rightharpoonup> nat set) \<times> (string \<rightharpoonup> nat set) \<Rightarrow> (string \<rightharpoonup> nat set) \<times> (string \<rightharpoonup> nat set)" where
  "analyze_instr fl p ud =
     (case p of (i, instr) \<Rightarrow>
        (case analyze_defs i instr ud of (usage, defs) \<Rightarrow>
           (analyze_arg fl i (arg2 instr) (analyze_arg fl i (arg1 instr) usage), defs)))"

definition analyze_code :: "'f float_ops \<Rightarrow> 'f RLOptimizer \<Rightarrow> ThreeAddressCode list \<Rightarrow> 'f RLOptimizer" where
  "analyze_code fl self code =
     (case fold (analyze_instr fl) (enumerate 0 code) (Map.empty, Map.empty) of
        (usage, defs) \<Rightarrow> self\<lparr>variable_usage := usage, variable_defs := defs\<rparr>)"

definition is_variable_used_later :: "'f RLOptimizer \<Rightarrow> ThreeAddressCode list \<Rightarrow> nat \<Rightarrow> string \<Rightarrow> bool" where
  "is_variable_used_later self code position variable =
     (case variable_usage self variable of
        None \<Rightarrow> False
      | Some uses \<Rightarrow> (\<exists>usage_pos \<in> uses. usage_pos > position))"

definition arith_ops :: "string list" where
  "arith_ops = [''+'', ''-'', ''*'', ''/'']"

text \<open>
  \<open>apply_constant_folding\<close>. Every exception raised inside the \<open>try\<close> block (a quoted
  string passed to \<open>float\<close>, \<open>int\<close> of an infinity or a NaN) is caught and the code is
  returned unchanged.
\<close>

definition apply_constant_folding :: "'f float_ops \<Rightarrow> ThreeAddressCode list \<Rightarrow> nat \<Rightarrow> ThreeAddressCode list" where
  "apply_constant_folding fl code position =
     (if position \<ge> length code then code
      else
        let instr = code ! position in
        if operation instr \<in> set arith_ops \<and> is_constant fl (arg1 instr) \<and> is_constant fl (arg2 instr) then
          (case arg1 instr of
             None \<Rightarrow> code
           | Some a1 \<Rightarrow>
          (case float_of_str fl a1 of
             None \<Rightarrow> code
           | Some val1 \<Rightarrow>
          (case arg2 instr of
             None \<Rightarrow> code
           | Some a2 \<Rightarrow>
          (case float_of_str fl a2 of
             None \<Rightarrow> code
           | Some val2 \<Rightarrow>
               if operation instr = ''/'' \<and> feq_zero fl val2 then code
               else
                 (let res = (if operation instr = ''+'' then fadd fl val1 val2
                             else if operation instr = ''-'' then fsub fl val1 val2
                             else if operation instr = ''*'' then fmul fl val1 val2
                             else fdiv fl val1 val2)
                  in (case int_of_float fl res of
                        None \<Rightarrow> code
                      | Some n \<Rightarrow>
                          (let result_str = (if feq_int fl res n then str_int n else str_of_float fl res)
                           in code[position := TAC ''ASSIGN'' (Some result_str) None (result instr)])))))))
        else code)"

text \<open>The driver's test whether a primitive changed the code.\<close>

definition code_changed :: "ThreeAddressCode list \<Rightarrow> ThreeAddressCode list \<Rightarrow> bool" where
  "code_changed new_code old_code =
     (length new_code \<noteq> length old_code \<or>
      list_ex (\<lambda>i. new_code ! i \<noteq> old_code ! i) [0..<min (length new_code) (length old_code)])"

text \<open>
  First pass of \<open>optimize\<close>: one iteration of the loop over the positions, on the
  optimizer object, the code and the log.
\<close>

definition constant_folding_step :: "'f float_ops \<Rightarrow> nat \<Rightarrow>
    'f RLOptimizer \<times> ThreeAddressCode list \<times> string list \<Rightarrow> 'f RLOptimizer \<times> ThreeAddressCode list \<times> string list" where
  "constant_folding_step fl position s =
     (case s of (self, optimized_code, optimization_log) \<Rightarrow>
        let instr = optimized_code ! position in
        if operation instr \<in> set arith_ops \<and> is_constant fl (arg1 instr) \<and> is_constant fl (arg2 instr) then
          (let new_code = apply_constant_folding fl optimized_code position in
           if code_changed new_code optimized_code then
             (analyze_code fl self new_code, new_code,
              optimization_log @ [''Applied constant_folding at position '' @ str_nat position @ '' (reward: 15.00)''])
           else s)
        else s)"

definition constant_folding_pass :: "'f float_ops \<Rightarrow>
    'f RLOptimizer \<times> ThreeAddressCode list \<times> string list \<Rightarrow> 'f RLOptimizer \<times> ThreeAddressCode list \<times> string list" where
  "constant_folding_pass fl s =
     (case s of (self, optimized_code, optimization_log) \<Rightarrow>
        fold (constant_folding_step fl) [0..<length optimized_code] s)"

text \<open>
  What \<open>apply_constant_folding\<close> does to the instruction at its position, read off a
  one-instruction sequence.
\<close>

definition fold1 :: "'f float_ops \<Rightarrow> ThreeAddressCode \<Rightarrow> ThreeAddressCode" where
  "fold1 fl instr = apply_constant_folding fl [instr] 0 ! 0"

text \<open>
  Exceptions are values. The parser raises \<open>ParseError\<close>, the lexer \<open>SyntaxError\<close>; the
  other three are raised by Python itself.
\<close>

datatype error = SyntaxError string | ParseError string | ValueError | IndexError | TypeError

text \<open>\<open>a in s\<close> for two Python strings: \<open>a\<close> occurs in \<open>s\<close> as a substring.\<close>

fun str_contains :: "string \<Rightarrow> string \<Rightarrow> bool" where
  "str_contains a [] = (a = [])"
| "str_contains a (c # cs) = (startswith (c # cs) a \<or> str_contains a cs)"

text \<open>\<open>del xs[i]\<close> for an index in range, and \<open>xs.insert(i, x)\<close>, which clamps the index.\<close>

definition delete_at :: "'a list \<Rightarrow> nat \<Rightarrow> 'a list" where
  "delete_at xs i = take i xs @ drop (Suc i) xs"

definition insert_at :: "'a list \<Rightarrow> nat \<Rightarrow> 'a \<Rightarrow> 'a list" where
  "insert_at xs i x = take i xs @ [x] @ drop i xs"

text \<open>A loop that stops at the first exception.\<close>

fun fold_err :: "('a \<Rightarrow> 'b \<Rightarrow> error + 'b) \<Rightarrow> 'a list \<Rightarrow> 'b \<Rightarrow> error + 'b" where
  "fold_err f [] acc = Inr acc"
| "fold_err f (x # xs) acc = (case f x acc of Inl e \<Rightarrow> Inl e | Inr acc1 \<Rightarrow> fold_err f xs acc1)"

text \<open>A position is recorded as a use of a name in the usage dictionary.\<close>

definition recorded_use :: "(string \<rightharpoonup> nat set) \<Rightarrow> string \<Rightarrow> nat \<Rightarrow> bool" where
  "recorded_use usage r i = (case usage r of None \<Rightarrow> False | Some uses \<Rightarrow> i \<in> uses)"

subsection \<open>Loop discovery\<close>

text \<open>
  The dictionary that \<open>find_loops\<close> builds for a loop, its keys prefixed with \<open>lp\<close>.
  The keys \<open>parent\<close> and \<open>children\<close> are set by the nesting step.
\<close>

record Loop =
  lp_start :: nat
  lp_end :: nat
  lp_condition :: nat
  lp_label :: "string option"
  modified_vars :: "string set"
  invariant_candidates :: "nat list"
  lp_parent :: "nat option"
  lp_children :: "nat list"

definition find_labels :: "ThreeAddressCode list \<Rightarrow> (string option \<rightharpoonup> nat)" where
  "find_labels code =
     fold (\<lambda>p labels. case p of (i, instr) \<Rightarrow>
             if operation instr = ''LABEL'' then labels(arg1 instr \<mapsto> i) else labels)
          (enumerate 0 code) Map.empty"

definition back_edge_loops :: "ThreeAddressCode list \<Rightarrow> (string option \<rightharpoonup> nat) \<Rightarrow> nat \<times> ThreeAddressCode \<Rightarrow> Loop list" where
  "back_edge_loops code labels p =
     (case p of (i, instr) \<Rightarrow>
        if operation instr = ''GOTO'' then
          (case labels (arg1 instr) of
             None \<Rightarrow> []
           | Some target \<Rightarrow>
               if target < i then
                 (case find (\<lambda>j. operation (code ! j) = ''IF_FALSE'') [target..<i] of
                    None \<Rightarrow> []
                  | Some condition_pos \<Rightarrow>
                      [\<lparr>lp_start = target, lp_end = i, lp_condition = condition_pos,
                        lp_label = arg1 instr, modified_vars = {}, invariant_candidates = [],
                        lp_parent = None, lp_children = []\<rparr>])
               else [])
        else [])"

definition nest_inner :: "nat \<Rightarrow> nat \<Rightarrow> Loop list \<Rightarrow> Loop list" where
  "nest_inner i j loops =
     (if i \<noteq> j \<and> lp_start (loops ! i) < lp_start (loops ! j) \<and> lp_end (loops ! i) > lp_end (loops ! j)
      then
        (let loops1 = loops[j := (loops ! j)\<lparr>lp_parent := Some i\<rparr>]
         in loops1[i := (loops1 ! i)\<lparr>lp_children := lp_children (loops1 ! i) @ [j]\<rparr>])
      else loops)"

definition nest_outer :: "nat \<Rightarrow> Loop list \<Rightarrow> Loop list" where
  "nest_outer i loops =
     fold (nest_inner i) [0..<length loops]
       (loops[i := (loops ! i)\<lparr>lp_parent := None, lp_children := []\<rparr>])"

definition defined_name :: "ThreeAddressCode \<Rightarrow> string option" where
  "defined_name instr =
     (case result instr of
        None \<Rightarrow> None
      | Some r \<Rightarrow> if r \<noteq> [] \<and> operation instr \<notin> set [''LABEL'', ''GOTO'', ''IF_FALSE''] then Some r else None)"

definition add_modified_vars :: "ThreeAddressCode list \<Rightarrow> Loop \<Rightarrow> Loop" where
  "add_modified_vars code loop =
     loop\<lparr>modified_vars := modified_vars loop \<union>
       set (List.map_filter (\<lambda>i. defined_name (code ! i)) [lp_start loop..<Suc (lp_end loop)])\<rparr>"

definition find_loops :: "ThreeAddressCode list \<Rightarrow> Loop list" where
  "find_loops code =
     (let labels = find_labels code;
          loops = concat (map (back_edge_loops code labels) (enumerate 0 code));
          sorted_loops = sort_key lp_start loops;
          nested = fold nest_outer [0..<length sorted_loops] sorted_loops
      in map (add_modified_vars code) nested)"

subsection \<open>Constant assignments inside loops\<close>

record ConstantAssignment =
  ca_position :: nat
  ca_loop_idx :: nat
  ca_result :: "string option"

text \<open>
  The search for an \<open>IF_FALSE\<close> whose operand contains the assigned name.
  \<open>instr.result in code[j].arg1\<close> raises \<open>TypeError\<close> when either side is \<open>None\<close>.
\<close>

fun is_loop_control :: "ThreeAddressCode list \<Rightarrow> ThreeAddressCode \<Rightarrow> nat list \<Rightarrow> error + bool" where
  "is_loop_control code instr [] = Inr False"
| "is_loop_control code instr (j # js) =
     (if operation (code ! j) = ''IF_FALSE'' then
        (case arg1 (code ! j) of
           None \<Rightarrow> Inl TypeError
         | Some a \<Rightarrow>
             (case result instr of
                None \<Rightarrow> Inl TypeError
              | Some r \<Rightarrow> if str_contains r a then Inr True else is_loop_control code instr js))
      else is_loop_control code instr js)"

definition constant_assignment_at :: "'f float_ops \<Rightarrow> ThreeAddressCode list \<Rightarrow> nat \<Rightarrow> Loop \<Rightarrow> nat
    \<Rightarrow> ConstantAssignment list \<Rightarrow> error + ConstantAssignment list" where
  "constant_assignment_at fl code loop_idx loop i constant_assignments =
     (let instr = code ! i in
      if operation instr = ''ASSIGN'' \<and> is_constant fl (arg1 instr) then
        (case is_loop_control code instr [Suc i..<Suc (lp_end loop)] of
           Inl e \<Rightarrow> Inl e
         | Inr control \<Rightarrow>
             if \<not> control then
               Inr (constant_assignments @
                 [\<lparr>ca_position = i, ca_loop_idx = loop_idx, ca_result = result instr\<rparr>])
             else Inr constant_assignments)
      else if operation instr \<in> set arith_ops \<and> is_constant fl (arg1 instr) \<and> is_constant fl (arg2 instr) then
        (case find (\<lambda>j. operation (code ! j) = ''ASSIGN'' \<and> arg1 (code ! j) = result instr) [Suc i..<lp_end loop] of
           None \<Rightarrow> Inr constant_assignments
         | Some j \<Rightarrow>
             Inr (constant_assignments @
               [\<lparr>ca_position = j, ca_loop_idx = loop_idx, ca_result = result (code ! j)\<rparr>]))
      else Inr constant_assignments)"

definition find_constant_assignments :: "'f float_ops \<Rightarrow> ThreeAddressCode list \<Rightarrow> Loop list
    \<Rightarrow> error + ConstantAssignment list" where
  "find_constant_assignments fl code loops =
     fold_err (\<lambda>p. case p of (loop_idx, loop) \<Rightarrow>
                 fold_err (constant_assignment_at fl code loop_idx loop) [Suc (lp_start loop)..<lp_end loop])
              (enumerate 0 loops) []"

subsection \<open>Rewrite primitives used by the driver\<close>

definition side_effect_ops :: "string list" where
  "side_effect_ops = [''PRINT'', ''SCAN'', ''LABEL'', ''GOTO'', ''IF_FALSE'']"

definition apply_dead_code_elimination :: "'f RLOptimizer \<Rightarrow> ThreeAddressCode list \<Rightarrow> nat \<Rightarrow> ThreeAddressCode list" where
  "apply_dead_code_elimination self code position =
     (if position \<ge> length code then code
      else
        let instr = code ! position in
        if operation instr \<in> set side_effect_ops then code
        else
          (case result instr of
             None \<Rightarrow> delete_at code position
           | Some r \<Rightarrow>
               if r \<noteq> [] \<and> is_variable_used_later self code position r then code
               else delete_at code position))"

text \<open>
  The walk up the \<open>parent\<close> links. It has no bound in the source, so not returning is the
  value \<open>None\<close>; an index outside \<open>loops\<close> raises \<open>IndexError\<close>.
\<close>

partial_function (option) outermost_loop :: "Loop list \<Rightarrow> nat \<Rightarrow> (error + nat) option" where
  "outermost_loop loops current_loop_idx =
     (if current_loop_idx \<ge> length loops then Some (Inl IndexError)
      else (case lp_parent (loops ! current_loop_idx) of
              None \<Rightarrow> Some (Inr current_loop_idx)
            | Some p \<Rightarrow> outermost_loop loops p))"

definition apply_loop_invariant_motion :: "ThreeAddressCode list \<Rightarrow> nat \<Rightarrow> nat \<Rightarrow> Loop list
    \<Rightarrow> (error + ThreeAddressCode list) option" where
  "apply_loop_invariant_motion code position loop_idx loops =
     (if position \<ge> length code \<or> loop_idx \<ge> length loops then Some (Inr code)
      else
        (case outermost_loop loops loop_idx of
           None \<Rightarrow> None
         | Some (Inl e) \<Rightarrow> Some (Inl e)
         | Some (Inr k) \<Rightarrow>
             Some (Inr (insert_at (delete_at code position) (lp_start (loops ! k)) (code ! position)))))"

subsection \<open>Control-flow repair\<close>

text \<open>
  The first \<open>for\<close> loop of \<open>fix_loop_control_flow\<close>, over the positions that are left:
  \<open>Some\<close> of the code that the function calls itself with, \<open>None\<close> when the loop ends
  without a recursive call. The call is made whether or not an instruction was inserted.
\<close>

fun condition_fix :: "ThreeAddressCode list \<Rightarrow> nat list \<Rightarrow> ThreeAddressCode list option" where
  "condition_fix new_code [] = None"
| "condition_fix new_code (i # rest) =
     (let instr = new_code ! i; var_name = arg1 instr in
      if operation instr = ''IF_FALSE'' \<and> \<not> list_ex (\<lambda>j. result (new_code ! j) = var_name) [0..<i] then
        (case find (\<lambda>j. operation (new_code ! j) = ''GOTO'') [Suc i..<length new_code] of
           None \<Rightarrow> condition_fix new_code rest
         | Some loop_end \<Rightarrow>
             (case find (\<lambda>j. operation (new_code ! j) = ''+'' \<and> truthy (result (new_code ! j)))
                     (rev [Suc i..<Suc loop_end]) of
                None \<Rightarrow> condition_fix new_code rest
              | Some j \<Rightarrow>
                  (case arg1 (new_code ! j) of
                     None \<Rightarrow> condition_fix new_code rest
                   | Some loop_var \<Rightarrow>
                       if loop_var = [] then condition_fix new_code rest
                       else if str_contains ''j'' loop_var then
                         Some (insert_at new_code i (TAC ''<'' (Some loop_var) (Some ''2.0'') var_name))
                       else if str_contains ''i'' loop_var then
                         Some (insert_at new_code i (TAC ''<'' (Some loop_var) (Some ''2.0'') var_name))
                       else Some new_code)))
      else condition_fix new_code rest)"

text \<open>The second \<open>for\<close> loop, in the same way.\<close>

fun increment_fix :: "ThreeAddressCode list \<Rightarrow> nat list \<Rightarrow> ThreeAddressCode list option" where
  "increment_fix new_code [] = None"
| "increment_fix new_code (i # rest) =
     (let instr = new_code ! i in
      if operation instr = ''+'' \<and> truthy (result instr) \<and> startswith (the (result instr)) ''t''
         \<and> arg1 instr \<in> set [Some ''i'', Some ''j''] \<and> arg2 instr = Some ''1.0''
      then Some (insert_at (new_code[i := TAC ''ASSIGN'' (result instr) None (arg1 instr)]) (Suc i)
                   (TAC ''='' (arg1 instr) None (arg1 instr)))
      else increment_fix new_code rest)"

text \<open>
  \<open>fix_loop_control_flow\<close> calls itself without a bound; \<open>None\<close> is the recursion that
  never returns a result.
\<close>

partial_function (option) fix_loop_control_flow :: "ThreeAddressCode list \<Rightarrow> ThreeAddressCode list option" where
  "fix_loop_control_flow code =
     (case condition_fix code [0..<length code] of
        Some new_code \<Rightarrow> fix_loop_control_flow new_code
      | None \<Rightarrow>
          (case increment_fix code [0..<length code] of
             Some new_code \<Rightarrow> fix_loop_control_flow new_code
           | None \<Rightarrow> Some code))"

subsection \<open>The driver\<close>

text \<open>
  Second pass of \<open>optimize\<close>. The \<open>for\<close> loop runs over the list of constant assignments
  found before the pass; the code, the loops and the optimizer object are the current
  ones. The result is the optimizer object together with \<open>None\<close> when the pass does not
  return, the exception when one is raised, or the code and the log.
\<close>

fun loop_invariant_pass :: "'f float_ops \<Rightarrow> ConstantAssignment list \<Rightarrow>
    'f RLOptimizer \<times> ThreeAddressCode list \<times> string list \<times> Loop list \<Rightarrow>
    'f RLOptimizer \<times> (error + ThreeAddressCode list \<times> string list) option" where
  "loop_invariant_pass fl [] s =
     (case s of (self, optimized_code, optimization_log, loops) \<Rightarrow>
        (self, Some (Inr (optimized_code, optimization_log))))"
| "loop_invariant_pass fl (ca # cas) s =
     (case s of (self, optimized_code, optimization_log, loops) \<Rightarrow>
        (case apply_loop_invariant_motion optimized_code (ca_position ca) (ca_loop_idx ca) loops of
           None \<Rightarrow> (self, None)
         | Some (Inl e) \<Rightarrow> (self, Some (Inl e))
         | Some (Inr new_code) \<Rightarrow>
             if code_changed new_code optimized_code then
               (let self1 = analyze_code fl self new_code;
                    loops1 = find_loops new_code
                in (case find_constant_assignments fl new_code loops1 of
                      Inl e \<Rightarrow> (self1, Some (Inl e))
                    | Inr constant_assignments \<Rightarrow>
                        loop_invariant_pass fl cas
                          (self1, new_code,
                           optimization_log @ [''Applied loop_invariant_motion at position ''
                              @ str_nat (ca_position ca) @ '' (reward: 30.00)''],
                           loops1)))
             else loop_invariant_pass fl cas s))"

lemma length_apply_dead_code_elimination:
  "length (apply_dead_code_elimination self code position) \<le> length code"
  by (auto simp: apply_dead_code_elimination_def delete_at_def Let_def split: option.splits)

text \<open>Third pass of \<open>optimize\<close>, from a position on.\<close>

function dead_code_pass :: "'f float_ops \<Rightarrow> nat \<Rightarrow>
    'f RLOptimizer \<times> ThreeAddressCode list \<times> string list \<Rightarrow> 'f RLOptimizer \<times> ThreeAddressCode list \<times> string list" where
  "dead_code_pass fl position (self, optimized_code, optimization_log) =
     (if position < length optimized_code then
        (let instr = optimized_code ! position;
             new_code = apply_dead_code_elimination self optimized_code position
         in if (case result instr of
                  None \<Rightarrow> False
                | Some r \<Rightarrow> r \<noteq> [] \<and> \<not> is_variable_used_later self optimized_code position r)
               \<and> operation instr \<notin> set side_effect_ops
               \<and> length new_code \<noteq> length optimized_code
            then dead_code_pass fl position
                   (analyze_code fl self new_code, new_code,
                    optimization_log @ [''Applied dead_code_elimination at position ''
                       @ str_nat position @ '' (reward: 25.00)''])
            else dead_code_pass fl (position + 1) (self, optimized_code, optimization_log))
      else (self, optimized_code, optimization_log))"
  by pat_completeness auto
termination
proof (relation "measure (\<lambda>(fl, position, self, optimized_code, optimization_log). length optimized_code - position)")
  show "wf (measure (\<lambda>(fl, position, self, optimized_code, optimization_log). length optimized_code - position))"
    by simp
next
  fix fl :: "'f float_ops" and position and self :: "'f RLOptimizer" and optimized_code :: "ThreeAddressCode list"
    and optimization_log :: "string list" and x xa
  assume "position < length optimized_code"
    and "xa = apply_dead_code_elimination self optimized_code position"
    and "(case result x of None \<Rightarrow> False
          | Some r \<Rightarrow> r \<noteq> [] \<and> \<not> is_variable_used_later self optimized_code position r)
         \<and> operation x \<notin> set side_effect_ops \<and> length xa \<noteq> length optimized_code"
  then have "position < length optimized_code" and "length xa \<noteq> length optimized_code"
    and "length xa \<le> length optimized_code"
    using length_apply_dead_code_elimination[of self optimized_code position] by simp_all
  then have "length xa - position < length optimized_code - position" by arith
  then show "((fl, position, analyze_code fl self xa, xa,
        optimization_log @ [''Applied dead_code_elimination at position '' @ str_nat position @ '' (reward: 25.00)'']),
       fl, position, self, optimized_code, optimization_log)
      \<in> measure (\<lambda>(fl, position, self, optimized_code, optimization_log). length optimized_code - position)"
    by simp
next
  fix fl :: "'f float_ops" and position and self :: "'f RLOptimizer" and optimized_code :: "ThreeAddressCode list"
    and optimization_log :: "string list" and x xa
  assume "position < length optimized_code"
  then show "((fl, position + 1, self, optimized_code, optimization_log),
       fl, position, self, optimized_code, optimization_log)
      \<in> measure (\<lambda>(fl, position, self, optimized_code, optimization_log). length optimized_code - position)"
    by simp
qed

declare dead_code_pass.simps [simp del]

text \<open>
  The first three passes of \<open>optimize\<close>: the optimizer object after them, and \<open>None\<close> when
  they do not return, the exception when one is raised, or the code and the log.
\<close>

definition optimize_passes :: "'f float_ops \<Rightarrow> 'f RLOptimizer \<Rightarrow> ThreeAddressCode list \<Rightarrow>
    'f RLOptimizer \<times> (error + ThreeAddressCode list \<times> string list) option" where
  "optimize_passes fl self code =
     (case constant_folding_pass fl (analyze_code fl self code, code, []) of
        (self1, code1, log1) \<Rightarrow>
          (let loops = find_loops code1 in
           (case find_constant_assignments fl code1 loops of
              Inl e \<Rightarrow> (self1, Some (Inl e))
            | Inr constant_assignments \<Rightarrow>
                (case loop_invariant_pass fl constant_assignments (self1, code1, log1, loops) of
                   (self2, None) \<Rightarrow> (self2, None)
                 | (self2, Some (Inl e)) \<Rightarrow> (self2, Some (Inl e))
                 | (self2, Some (Inr (code2, log2))) \<Rightarrow>
                     (case dead_code_pass fl 0 (self2, code2, log2) of
                        (self3, code3, log3) \<Rightarrow> (self3, Some (Inr (code3, log3))))))))"

text \<open>
  \<open>optimize\<close>: the three passes, then \<open>fix_loop_control_flow\<close> on their code. The result
  is the optimizer object after the call and the outcome of the call: \<open>None\<close> when it
  does not return, the exception when one is raised, or the optimized code and the log.
\<close>

definition optimize :: "'f float_ops \<Rightarrow> 'f RLOptimizer \<Rightarrow> ThreeAddressCode list \<Rightarrow>
    'f RLOptimizer \<times> (error + ThreeAddressCode list \<times> string list) option" where
  "optimize fl self code =
     (case optimize_passes fl self code of
        (self3, None) \<Rightarrow> (self3, None)
      | (self3, Some (Inl e)) \<Rightarrow> (self3, Some (Inl e))
      | (self3, Some (Inr (code3, log3))) \<Rightarrow>
          (self3, map_option (\<lambda>optimized_code. Inr (optimized_code, log3)) (fix_loop_control_flow code3)))"

declare outermost_loop.simps [code]
declare fix_loop_control_flow.simps [code]

text \<open>The optimizer that \<open>__init__\<close> builds, given the three float constants.\<close>

definition RLOptimizer_init :: "'f \<Rightarrow> 'f \<Rightarrow> 'f \<Rightarrow> 'f RLOptimizer" where
  "RLOptimizer_init lr df eps =
     \<lparr>q_table = Map.empty, learning_rate = lr, discount_factor = df, epsilon = eps,
      optimization_history = [], variable_usage = Map.empty, variable_defs = Map.empty\<rparr>"

section \<open>Abstract syntax (ast_nodes.py)\<close>

text \<open>
  The node classes, as a tagged union. The value of a \<open>NumberLiteral\<close> is a Python float,
  the operator of an assignment or operation is a Python string.
\<close>

datatype 'f Expression =
    NumberLiteral 'f
  | StringLiteral string
  | Identifier string
  | BinaryOperation "'f Expression" string "'f Expression"
  | UnaryOperation string "'f Expression"

datatype 'f Statement =
    AssignmentStatement string string "'f Expression"
  | PrintStatement "'f Expression"
  | ScanStatement string
  | WhileStatement "'f Expression" "'f Statement list"
  | IfStatement "'f Expression" "'f Statement list" "'f Statement list option"

datatype 'f Program = Program "'f Statement list"

section \<open>The IR generator (intermediate_code.py)\<close>

record IntermediateCodeGenerator =
  gen_code :: "ThreeAddressCode list"
  temp_counter :: nat
  label_counter :: nat

definition new_temp :: "IntermediateCodeGenerator \<Rightarrow> string \<times> IntermediateCodeGenerator" where
  "new_temp self =
     (let self1 = self\<lparr>temp_counter := temp_counter self + 1\<rparr>
      in (''t'' @ str_nat (temp_counter self1), self1))"

definition new_label :: "IntermediateCodeGenerator \<Rightarrow> string \<times> IntermediateCodeGenerator" where
  "new_label self =
     (let self1 = self\<lparr>label_counter := label_counter self + 1\<rparr>
      in (''L'' @ str_nat (label_counter self1), self1))"

definition emit :: "IntermediateCodeGenerator \<Rightarrow> string \<Rightarrow> string option \<Rightarrow> string option \<Rightarrow> string option
    \<Rightarrow> IntermediateCodeGenerator" where
  "emit self opn a1 a2 r = self\<lparr>gen_code := gen_code self @ [TAC opn a1 a2 r]\<rparr>"

text \<open>
  \<open>accept_visitor\<close> on an expression node: the operand text that the visit returns and
  the generator afterwards.
\<close>

fun visit_expression :: "'f float_ops \<Rightarrow> 'f Expression \<Rightarrow> IntermediateCodeGenerator
    \<Rightarrow> string \<times> IntermediateCodeGenerator" where
  "visit_expression fl (NumberLiteral v) self = (str_of_float fl v, self)"
| "visit_expression fl (StringLiteral v) self = ([dquote] @ v @ [dquote], self)"
| "visit_expression fl (Identifier name) self = (name, self)"
| "visit_expression fl (BinaryOperation l opr r) self =
     (case visit_expression fl l self of (left, self1) \<Rightarrow>
        (case visit_expression fl r self1 of (right, self2) \<Rightarrow>
           (case new_temp self2 of (temp, self3) \<Rightarrow>
              (temp, emit self3 opr (Some left) (Some right) (Some temp)))))"
| "visit_expression fl (UnaryOperation opr e) self =
     (case visit_expression fl e self of (operand, self1) \<Rightarrow>
        (case new_temp self1 of (temp, self2) \<Rightarrow>
           (temp, emit self2 opr (Some operand) None (Some temp))))"

text \<open>
  \<open>accept_visitor\<close> on a statement node, and the \<open>for stmt in ...\<close> loops over a body.
  An \<open>else_body\<close> that is \<open>None\<close> or the empty list is falsy.
\<close>

fun visit_statement :: "'f float_ops \<Rightarrow> 'f Statement \<Rightarrow> IntermediateCodeGenerator \<Rightarrow> IntermediateCodeGenerator"
  and visit_statements :: "'f float_ops \<Rightarrow> 'f Statement list \<Rightarrow> IntermediateCodeGenerator \<Rightarrow> IntermediateCodeGenerator" where
  "visit_statement fl (AssignmentStatement target opr e) self =
     (case visit_expression fl e self of (v, self1) \<Rightarrow>
        if opr = ''='' then emit self1 ''ASSIGN'' (Some v) None (Some target)
        else if opr = ''+='' then
          (case new_temp self1 of (temp, self2) \<Rightarrow>
             emit (emit self2 ''+'' (Some target) (Some v) (Some temp)) ''ASSIGN'' (Some temp) None (Some target))
        else if opr = ''-='' then
          (case new_temp self1 of (temp, self2) \<Rightarrow>
             emit (emit self2 ''-'' (Some target) (Some v) (Some temp)) ''ASSIGN'' (Some temp) None (Some target))
        else self1)"
| "visit_statement fl (PrintStatement e) self =
     (case visit_expression fl e self of (expr, self1) \<Rightarrow> emit self1 ''PRINT'' (Some expr) None None)"
| "visit_statement fl (ScanStatement target) self = emit self ''SCAN'' None None (Some target)"
| "visit_statement fl (WhileStatement cond body) self =
     (case new_label self of (start_label, self1) \<Rightarrow>
        (case new_label self1 of (end_label, self2) \<Rightarrow>
           (let self3 = emit self2 ''LABEL'' (Some start_label) None None in
            (case visit_expression fl cond self3 of (condition, self4) \<Rightarrow>
               (let self5 = emit self4 ''IF_FALSE'' (Some condition) (Some end_label) None;
                    self6 = visit_statements fl body self5;
                    self7 = emit self6 ''GOTO'' (Some start_label) None None
                in emit self7 ''LABEL'' (Some end_label) None None)))))"
| "visit_statement fl (IfStatement cond then_body else_body) self =
     (case new_label self of (else_label, self1) \<Rightarrow>
        (case new_label self1 of (end_label, self2) \<Rightarrow>
           (case visit_expression fl cond self2 of (condition, self3) \<Rightarrow>
              (let self4 = emit self3 ''IF_FALSE'' (Some condition) (Some else_label) None;
                   self5 = visit_statements fl then_body self4
               in (case else_body of
                     None \<Rightarrow> emit self5 ''LABEL'' (Some else_label) None None
                   | Some [] \<Rightarrow> emit self5 ''LABEL'' (Some else_label) None None
                   | Some (s # ss) \<Rightarrow>
                       (let self6 = emit self5 ''GOTO'' (Some end_label) None None;
                            self7 = emit self6 ''LABEL'' (Some else_label) None None;
                            self8 = visit_statements fl (s # ss) self7
                        in emit self8 ''LABEL'' (Some end_label) None None))))))"
| "visit_statements fl [] self = self"
| "visit_statements fl (s # ss) self = visit_statements fl ss (visit_statement fl s self)"

definition visit_program :: "'f float_ops \<Rightarrow> 'f Program \<Rightarrow> IntermediateCodeGenerator \<Rightarrow> IntermediateCodeGenerator" where
  "visit_program fl node self = (case node of Program statements \<Rightarrow> visit_statements fl statements self)"

text \<open>\<open>generate\<close> resets the generator, visits the program and returns \<open>self.code\<close>.\<close>

definition generate :: "'f float_ops \<Rightarrow> IntermediateCodeGenerator \<Rightarrow> 'f Program
    \<Rightarrow> ThreeAddressCode list \<times> IntermediateCodeGenerator" where
  "generate fl self ast =
     (let self1 = visit_program fl ast (self\<lparr>gen_code := [], temp_counter := 0, label_counter := 0\<rparr>)
      in (gen_code self1, self1))"

text \<open>The generator that \<open>__init__\<close> builds.\<close>

definition IntermediateCodeGenerator_init :: IntermediateCodeGenerator where
  "IntermediateCodeGenerator_init = \<lparr>gen_code = [], temp_counter = 0, label_counter = 0\<rparr>"

text \<open>
  The generator with a sequence of instructions put in front of its code. Visiting a node
  only appends to \<open>self.code\<close>, so it commutes with this.
\<close>

definition with_prefix :: "ThreeAddressCode list \<Rightarrow> IntermediateCodeGenerator \<Rightarrow> IntermediateCodeGenerator" where
  "with_prefix pre self = self\<lparr>gen_code := pre @ gen_code self\<rparr>"

text \<open>
  The notions that the instruction count of a straight-line program is stated with:
  the number of operator nodes of an expression and of a statement, statements that are
  neither \<open>while\<close> nor \<open>if\<close>, compound assignments, and assignments with one of the
  operators that the parser produces.
\<close>

fun expression_operators :: "'f Expression \<Rightarrow> nat" where
  "expression_operators (NumberLiteral v) = 0"
| "expression_operators (StringLiteral v) = 0"
| "expression_operators (Identifier name) = 0"
| "expression_operators (BinaryOperation l opr r) = 1 + expression_operators l + expression_operators r"
| "expression_operators (UnaryOperation opr e) = 1 + expression_operators e"

fun simple_statement :: "'f Statement \<Rightarrow> bool" where
  "simple_statement (AssignmentStatement target opr e) = True"
| "simple_statement (PrintStatement e) = True"
| "simple_statement (ScanStatement target) = True"
| "simple_statement (WhileStatement cond body) = False"
| "simple_statement (IfStatement cond then_body else_body) = False"

fun statement_operators :: "'f Statement \<Rightarrow> nat" where
  "statement_operators (AssignmentStatement target opr e) = expression_operators e"
| "statement_operators (PrintStatement e) = expression_operators e"
| "statement_operators (ScanStatement target) = 0"
| "statement_operators (WhileStatement cond body) = expression_operators cond"
| "statement_operators (IfStatement cond then_body else_body) = expression_operators cond"

fun compound_assignment :: "'f Statement \<Rightarrow> bool" where
  "compound_assignment (AssignmentStatement target opr e) = (opr = ''+='' \<or> opr = ''-='')"
| "compound_assignment (PrintStatement e) = False"
| "compound_assignment (ScanStatement target) = False"
| "compound_assignment (WhileStatement cond body) = False"
| "compound_assignment (IfStatement cond then_body else_body) = False"

fun parser_operator :: "'f Statement \<Rightarrow> bool" where
  "parser_operator (AssignmentStatement target opr e) = (opr = ''='' \<or> opr = ''+='' \<or> opr = ''-='')"
| "parser_operator (PrintStatement e) = True"
| "parser_operator (ScanStatement target) = True"
| "parser_operator (WhileStatement cond body) = True"
| "parser_operator (IfStatement cond then_body else_body) = True"

section \<open>The semantic analyzer (semantic_analyzer.py)\<close>

text \<open>
  A symbol table holds a dictionary from names to values and an optional parent. The
  analyzer only ever stores \<open>None\<close> as the value. \<open>define_symbol\<close> is the method
  \<open>define\<close>.
\<close>

datatype SymbolTable = SymbolTable (symbols: "string \<rightharpoonup> unit") (parent: "SymbolTable option")

fun define_symbol :: "SymbolTable \<Rightarrow> string \<Rightarrow> SymbolTable" where
  "define_symbol (SymbolTable syms par) name = SymbolTable (syms(name \<mapsto> ())) par"

fun lookup :: "SymbolTable \<Rightarrow> string \<Rightarrow> bool" where
  "lookup (SymbolTable syms par) name =
     (if syms name \<noteq> None then True
      else (case par of Some p \<Rightarrow> lookup p name | None \<Rightarrow> False))"

record SemanticAnalyzer =
  symbol_table :: SymbolTable
  errors :: "string list"

definition SemanticAnalyzer_init :: SemanticAnalyzer where
  "SemanticAnalyzer_init = \<lparr>symbol_table = SymbolTable Map.empty None, errors = []\<rparr>"

definition undefined_variable :: "string \<Rightarrow> string" where
  "undefined_variable name = ''Undefined variable '' @ [squote] @ name @ [squote]"

fun is_zero_literal :: "'f float_ops \<Rightarrow> 'f Expression \<Rightarrow> bool" where
  "is_zero_literal fl (NumberLiteral v) = feq_zero fl v"
| "is_zero_literal fl e = False"

fun check_expression :: "'f float_ops \<Rightarrow> 'f Expression \<Rightarrow> SemanticAnalyzer \<Rightarrow> SemanticAnalyzer" where
  "check_expression fl (NumberLiteral v) self = self"
| "check_expression fl (StringLiteral v) self = self"
| "check_expression fl (Identifier name) self =
     (if \<not> lookup (symbol_table self) name
      then self\<lparr>errors := errors self @ [undefined_variable name]\<rparr>
      else self)"
| "check_expression fl (BinaryOperation l opr r) self =
     (let self1 = check_expression fl l self;
          self2 = check_expression fl r self1
      in if opr \<in> set [''/'', ''%''] \<and> is_zero_literal fl r
         then self2\<lparr>errors := errors self2 @ [''Division by zero'']\<rparr>
         else self2)"
| "check_expression fl (UnaryOperation opr e) self = check_expression fl e self"

fun check_statement :: "'f float_ops \<Rightarrow> 'f Statement \<Rightarrow> SemanticAnalyzer \<Rightarrow> SemanticAnalyzer"
  and check_statements :: "'f float_ops \<Rightarrow> 'f Statement list \<Rightarrow> SemanticAnalyzer \<Rightarrow> SemanticAnalyzer" where
  "check_statement fl (AssignmentStatement target opr e) self =
     (let self1 = check_expression fl e self
      in self1\<lparr>symbol_table := define_symbol (symbol_table self1) target\<rparr>)"
| "check_statement fl (PrintStatement e) self = check_expression fl e self"
| "check_statement fl (ScanStatement target) self = self\<lparr>symbol_table := define_symbol (symbol_table self) target\<rparr>"
| "check_statement fl (WhileStatement cond body) self =
     check_statements fl body (check_expression fl cond self)"
| "check_statement fl (IfStatement cond then_body else_body) self =
     (let self1 = check_statements fl then_body (check_expression fl cond self)
      in (case else_body of
            None \<Rightarrow> self1
          | Some [] \<Rightarrow> self1
          | Some (s # ss) \<Rightarrow> check_statements fl (s # ss) self1))"
| "check_statements fl [] self = self"
| "check_statements fl (s # ss) self = check_statements fl ss (check_statement fl s self)"

text \<open>\<open>analyze\<close> empties the error list, not the symbol table, and visits the program.\<close>

definition analyze :: "'f float_ops \<Rightarrow> SemanticAnalyzer \<Rightarrow> 'f Program \<Rightarrow> string list \<times> SemanticAnalyzer" where
  "analyze fl self ast =
     (case ast of Program statements \<Rightarrow>
        (let self1 = check_statements fl statements (self\<lparr>errors := []\<rparr>)
         in (errors self1, self1)))"

text \<open>
  For the claim on self-referencing assignments. An expression mentions a name, and
  \<open>occurrences\<close> counts how often. \<open>first_use\<close> is the first statement, in the order in
  which the analyzer visits the program (a condition before its body, a \<open>then\<close> branch
  before the \<open>else\<close> branch), that names \<open>x\<close> in its own expression or as its own target:
  an assignment, a \<open>print\<close>, a \<open>scan\<close>, or a \<open>while\<close> or \<open>if\<close> whose condition mentions
  \<open>x\<close>; \<open>None\<close> when the program never names \<open>x\<close>.
\<close>

fun mentions :: "string \<Rightarrow> 'f Expression \<Rightarrow> bool" where
  "mentions x (NumberLiteral v) = False"
| "mentions x (StringLiteral v) = False"
| "mentions x (Identifier name) = (name = x)"
| "mentions x (BinaryOperation l opr r) = (mentions x l \<or> mentions x r)"
| "mentions x (UnaryOperation opr e) = mentions x e"

fun occurrences :: "string \<Rightarrow> 'f Expression \<Rightarrow> nat" where
  "occurrences x (NumberLiteral v) = 0"
| "occurrences x (StringLiteral v) = 0"
| "occurrences x (Identifier name) = (if name = x then 1 else 0)"
| "occurrences x (BinaryOperation l opr r) = occurrences x l + occurrences x r"
| "occurrences x (UnaryOperation opr e) = occurrences x e"

fun first_use :: "string \<Rightarrow> 'f Statement \<Rightarrow> 'f Statement option"
  and first_use_in :: "string \<Rightarrow> 'f Statement list \<Rightarrow> 'f Statement option" where
  "first_use x (AssignmentStatement target opr e) =
     (if mentions x e \<or> target = x then Some (AssignmentStatement target opr e) else None)"
| "first_use x (PrintStatement e) = (if mentions x e then Some (PrintStatement e) else None)"
| "first_use x (ScanStatement target) = (if target = x then Some (ScanStatement target) else None)"
| "first_use x (WhileStatement cond body) =
     (if mentions x cond then Some (WhileStatement cond body) else first_use_in x body)"
| "first_use x (IfStatement cond then_body else_body) =
     (if mentions x cond then Some (IfStatement cond then_body else_body)
      else (case first_use_in x then_body of
              Some u \<Rightarrow> Some u
            | None \<Rightarrow> (case else_body of None \<Rightarrow> None | Some b \<Rightarrow> first_use_in x b)))"
| "first_use_in x [] = None"
| "first_use_in x (s # ss) = (case first_use x s of Some u \<Rightarrow> Some u | None \<Rightarrow> first_use_in x ss)"

section \<open>The lexer (lexer.py)\<close>

text \<open>
  \<open>TokenType\<close>. The names \<open>RPAREN\<close> and \<open>RBRACE\<close> are both given the value \<open>"RBRACE"\<close>, and
  a Python \<open>Enum\<close> makes a name whose value is already taken an alias of the first
  member with that value: \<open>TokenType.RBRACE\<close> is the member \<open>TokenType.RPAREN\<close>.
\<close>

datatype TokenType =
    NUMBER | STRING | IDENTIFIER
  | PRINT | SCAN | WHILE | IF | ELSE
  | PLUS | MINUS | MULTIPLY | DIVIDE | ASSIGN | PLUS_ASSIGN | MINUS_ASSIGN
  | EQUAL | NOT_EQUAL | GREATER | LESS | GREATER_EQUAL | LESS_EQUAL
  | AND | OR | NOT
  | LPAREN | RPAREN | LBRACE | SEMICOLON
  | NEWLINE | EOF

definition RBRACE :: TokenType where
  "RBRACE = RPAREN"

text \<open>\<open>str\<close> of a token type, as the error messages of the parser show it.\<close>

fun str_TokenType :: "TokenType \<Rightarrow> string" where
  "str_TokenType NUMBER = ''TokenType.NUMBER''"
| "str_TokenType STRING = ''TokenType.STRING''"
| "str_TokenType IDENTIFIER = ''TokenType.IDENTIFIER''"
| "str_TokenType PRINT = ''TokenType.PRINT''"
| "str_TokenType SCAN = ''TokenType.SCAN''"
| "str_TokenType WHILE = ''TokenType.WHILE''"
| "str_TokenType IF = ''TokenType.IF''"
| "str_TokenType ELSE = ''TokenType.ELSE''"
| "str_TokenType PLUS = ''TokenType.PLUS''"
| "str_TokenType MINUS = ''TokenType.MINUS''"
| "str_TokenType MULTIPLY = ''TokenType.MULTIPLY''"
| "str_TokenType DIVIDE = ''TokenType.DIVIDE''"
| "str_TokenType ASSIGN = ''TokenType.ASSIGN''"
| "str_TokenType PLUS_ASSIGN = ''TokenType.PLUS_ASSIGN''"
| "str_TokenType MINUS_ASSIGN = ''TokenType.MINUS_ASSIGN''"
| "str_TokenType EQUAL = ''TokenType.EQUAL''"
| "str_TokenType NOT_EQUAL = ''TokenType.NOT_EQUAL''"
| "str_TokenType GREATER = ''TokenType.GREATER''"
| "str_TokenType LESS = ''TokenType.LESS''"
| "str_TokenType GREATER_EQUAL = ''TokenType.GREATER_EQUAL''"
| "str_TokenType LESS_EQUAL = ''TokenType.LESS_EQUAL''"
| "str_TokenType AND = ''TokenType.AND''"
| "str_TokenType OR = ''TokenType.OR''"
| "str_TokenType NOT = ''TokenType.NOT''"
| "str_TokenType LPAREN = ''TokenType.LPAREN''"
| "str_TokenType RPAREN = ''TokenType.RPAREN''"
| "str_TokenType LBRACE = ''TokenType.LBRACE''"
| "str_TokenType SEMICOLON = ''TokenType.SEMICOLON''"
| "str_TokenType NEWLINE = ''TokenType.NEWLINE''"
| "str_TokenType EOF = ''TokenType.EOF''"

record Token =
  tok_type :: TokenType
  tok_value :: string
  tok_line :: nat
  tok_column :: nat

definition Token :: "TokenType \<Rightarrow> string \<Rightarrow> nat \<Rightarrow> nat \<Rightarrow> Token" where
  "Token t v l c = \<lparr>tok_type = t, tok_value = v, tok_line = l, tok_column = c\<rparr>"

text \<open>
  The fields of a \<open>Lexer\<close> object that change. The two dictionaries are constants;
  \<open>lexer_keywords\<close> is \<open>self.keywords\<close>.
\<close>

record Lexer =
  lex_source :: string
  lex_position :: nat
  lex_line :: nat
  lex_column :: nat
  lex_tokens :: "Token list"

definition Lexer_init :: "string \<Rightarrow> Lexer" where
  "Lexer_init source_code =
     \<lparr>lex_source = source_code, lex_position = 0, lex_line = 1, lex_column = 1, lex_tokens = []\<rparr>"

definition lexer_keywords :: "(string \<times> TokenType) list" where
  "lexer_keywords = [(''print'', PRINT), (''scan'', SCAN), (''while'', WHILE), (''if'', IF), (''else'', ELSE)]"

definition operators :: "(string \<times> TokenType) list" where
  "operators =
     [(''+'', PLUS), (''-'', MINUS), (''*'', MULTIPLY), (''/'', DIVIDE), (''='', ASSIGN),
      (''+='', PLUS_ASSIGN), (''-='', MINUS_ASSIGN), (''=='', EQUAL), (''!='', NOT_EQUAL),
      (''>'', GREATER), (''<'', LESS), (''>='', GREATER_EQUAL), (''<='', LESS_EQUAL),
      (''&&'', AND), (''||'', OR), (''!'', NOT)]"

definition newline :: char where
  "newline = CHR 0x0A"

text \<open>
  \<open>str.isdigit\<close>, \<open>str.isalpha\<close> and \<open>str.isalnum\<close> on the code points 0 to 255: beyond
  ASCII, the superscript digits count as digits, the letters of Latin-1 as letters, and
  the three vulgar fractions as alphanumeric.
\<close>

definition py_isdigit :: "char \<Rightarrow> bool" where
  "py_isdigit c = (let n = (of_char c :: nat) in (48 \<le> n \<and> n \<le> 57) \<or> n = 178 \<or> n = 179 \<or> n = 185)"

definition py_isalpha :: "char \<Rightarrow> bool" where
  "py_isalpha c =
     (let n = (of_char c :: nat)
      in (65 \<le> n \<and> n \<le> 90) \<or> (97 \<le> n \<and> n \<le> 122) \<or> n = 170 \<or> n = 181 \<or> n = 186
         \<or> (192 \<le> n \<and> n \<le> 214) \<or> (216 \<le> n \<and> n \<le> 246) \<or> 248 \<le> n)"

definition py_isalnum :: "char \<Rightarrow> bool" where
  "py_isalnum c =
     (py_isalpha c \<or> py_isdigit c \<or> (of_char c :: nat) = 188 \<or> (of_char c :: nat) = 189 \<or> (of_char c :: nat) = 190)"

definition current_char :: "Lexer \<Rightarrow> char option" where
  "current_char self =
     (if lex_position self \<ge> length (lex_source self) then None
      else Some (lex_source self ! lex_position self))"

definition peek_char :: "Lexer \<Rightarrow> nat \<Rightarrow> char option" where
  "peek_char self offset =
     (let peek_pos = lex_position self + offset
      in if peek_pos \<ge> length (lex_source self) then None else Some (lex_source self ! peek_pos))"

definition advance :: "Lexer \<Rightarrow> Lexer" where
  "advance self =
     (let self1 = (if lex_position self < length (lex_source self) \<and> lex_source self ! lex_position self = newline
                   then self\<lparr>lex_line := lex_line self + 1, lex_column := 1\<rparr>
                   else self\<lparr>lex_column := lex_column self + 1\<rparr>)
      in self1\<lparr>lex_position := lex_position self1 + 1\<rparr>)"

lemma advance_source [simp]: "lex_source (advance self) = lex_source self"
  by (simp add: advance_def Let_def)

lemma advance_position [simp]: "lex_position (advance self) = lex_position self + 1"
  by (simp add: advance_def Let_def)

lemma current_char_Some: "current_char self = Some c \<Longrightarrow> lex_position self < length (lex_source self)"
  by (simp add: current_char_def split: if_splits)

text \<open>
  The loops \<open>while self.current_char() and P(self.current_char()): self.advance()\<close> of
  \<open>skip_whitespace\<close>, \<open>read_number\<close>, \<open>read_identifier\<close> and of the comment branch. A
  character is a non-empty string, so \<open>self.current_char()\<close> is falsy at the end of the
  input only.
\<close>

function advance_while :: "(char \<Rightarrow> bool) \<Rightarrow> Lexer \<Rightarrow> Lexer" where
  "advance_while P self =
     (case current_char self of
        None \<Rightarrow> self
      | Some c \<Rightarrow> if P c then advance_while P (advance self) else self)"
  by pat_completeness auto
termination
  by (relation "measure (\<lambda>(P, self). length (lex_source self) - lex_position self)")
     (auto dest: current_char_Some)

declare advance_while.simps [simp del]

definition skip_whitespace :: "Lexer \<Rightarrow> Lexer" where
  "skip_whitespace self = advance_while (\<lambda>c. c \<in> set [CHR '' '', CHR 0x09, CHR 0x0D]) self"

text \<open>\<open>source[start:stop]\<close>.\<close>

definition slice :: "string \<Rightarrow> nat \<Rightarrow> nat \<Rightarrow> string" where
  "slice s start stop = take (stop - start) (drop start s)"

definition read_number :: "Lexer \<Rightarrow> string \<times> Lexer" where
  "read_number self =
     (let start_pos = lex_position self;
          self1 = advance_while (\<lambda>c. py_isdigit c \<or> c = CHR ''.'') self
      in (slice (lex_source self1) start_pos (lex_position self1), self1))"

function read_string_loop :: "Lexer \<Rightarrow> Lexer" where
  "read_string_loop self =
     (case current_char self of
        None \<Rightarrow> self
      | Some c \<Rightarrow>
          if c \<noteq> dquote then
            read_string_loop (advance (if c = CHR 0x5C then advance self else self))
          else self)"
  by pat_completeness auto
termination
  by (relation "measure (\<lambda>self. length (lex_source self) - lex_position self)")
     (auto dest: current_char_Some)

declare read_string_loop.simps [simp del]

definition unterminated_string :: "nat \<Rightarrow> string" where
  "unterminated_string line = ''Unterminated string at line '' @ str_nat line"

definition read_string :: "Lexer \<Rightarrow> error + string \<times> Lexer" where
  "read_string self =
     (let self1 = advance self;
          start_pos = lex_position self1;
          self2 = read_string_loop self1
      in if current_char self2 = None then Inl (SyntaxError (unterminated_string (lex_line self2)))
         else Inr (slice (lex_source self2) start_pos (lex_position self2), advance self2))"

definition read_identifier :: "Lexer \<Rightarrow> string \<times> Lexer" where
  "read_identifier self =
     (let start_pos = lex_position self;
          self1 = advance_while (\<lambda>c. py_isalnum c \<or> c = CHR ''_'') self
      in (slice (lex_source self1) start_pos (lex_position self1), self1))"

definition unknown_character :: "char \<Rightarrow> nat \<Rightarrow> nat \<Rightarrow> string" where
  "unknown_character c line column =
     ''Unknown character '' @ [squote, c, squote] @ '' at line '' @ str_nat line @ '', column '' @ str_nat column"

definition append_token :: "Lexer \<Rightarrow> Token \<Rightarrow> Lexer" where
  "append_token self t = self\<lparr>lex_tokens := lex_tokens self @ [t]\<rparr>"

text \<open>
  One round of the \<open>while\<close> loop of \<open>tokenize\<close>. A round that ends in \<open>break\<close> leaves the
  lexer at the end of the input, where the loop stops as well.
\<close>

definition tokenize_round :: "Lexer \<Rightarrow> error + Lexer" where
  "tokenize_round self0 =
     (let self = skip_whitespace self0 in
      case current_char self of
        None \<Rightarrow> Inr self
      | Some char \<Rightarrow>
          if char = CHR ''/'' \<and> peek_char self 1 = Some (CHR ''/'') then
            Inr (advance_while (\<lambda>c. c \<noteq> newline) self)
          else
            (let line = lex_line self; column = lex_column self in
             if char = newline then
               Inr (advance (append_token self (Token NEWLINE [char] line column)))
             else if py_isdigit char then
               (case read_number self of (v, self1) \<Rightarrow>
                  Inr (append_token self1 (Token NUMBER v line column)))
             else if char = dquote then
               (case read_string self of
                  Inl e \<Rightarrow> Inl e
                | Inr (v, self1) \<Rightarrow> Inr (append_token self1 (Token STRING v line column)))
             else if py_isalpha char \<or> char = CHR ''_'' then
               (case read_identifier self of (v, self1) \<Rightarrow>
                  (let token_type = (case map_of lexer_keywords v of Some t \<Rightarrow> t | None \<Rightarrow> IDENTIFIER)
                   in Inr (append_token self1 (Token token_type v line column))))
             else if char \<in> set ''+-=!><&|'' then
               (let two_char = char # (case peek_char self 1 of Some next_char \<Rightarrow> [next_char] | None \<Rightarrow> []) in
                case map_of operators two_char of
                  Some t \<Rightarrow> Inr (advance (advance (append_token self (Token t two_char line column))))
                | None \<Rightarrow>
                    (case map_of operators [char] of
                       Some t \<Rightarrow> Inr (advance (append_token self (Token t [char] line column)))
                     | None \<Rightarrow> Inl (SyntaxError (unknown_character char line column))))
             else if char \<in> set (''*/(){};'' @ [newline]) then
               (let token_type =
                      (if char = CHR ''('' then Some LPAREN
                       else if char = CHR '')'' then Some RPAREN
                       else if char = CHR ''{'' then Some LBRACE
                       else if char = CHR ''}'' then Some RBRACE
                       else if char = CHR '';'' then Some SEMICOLON
                       else map_of operators [char])
                in Inr (advance (case token_type of
                                   Some t \<Rightarrow> append_token self (Token t [char] line column)
                                 | None \<Rightarrow> self)))
             else Inl (SyntaxError (unknown_character char line column))))"

lemma advance_while_source [simp]: "lex_source (advance_while P self) = lex_source self"
  by (induction P self rule: advance_while.induct)
     (subst advance_while.simps, auto split: option.splits)

lemma advance_while_position: "lex_position self \<le> lex_position (advance_while P self)"
proof (induction P self rule: advance_while.induct)
  case (1 P self)
  show ?case
  proof (cases "current_char self")
    case None
    then show ?thesis by (subst advance_while.simps) simp
  next
    case (Some c)
    show ?thesis
    proof (cases "P c")
      case True
      have "lex_position (advance self) \<le> lex_position (advance_while P (advance self))"
        using "1.IH"[OF Some True] .
      then show ?thesis using Some True by (subst advance_while.simps) simp
    next
      case False
      then show ?thesis using Some by (subst advance_while.simps) simp
    qed
  qed
qed

lemma advance_while_progress:
  "current_char self = Some c \<Longrightarrow> P c \<Longrightarrow> lex_position self < lex_position (advance_while P self)"
  using advance_while_position[of "advance self" P]
  by (subst advance_while.simps) simp

lemma read_string_loop_source [simp]: "lex_source (read_string_loop self) = lex_source self"
  by (induction self rule: read_string_loop.induct)
     (subst read_string_loop.simps, auto split: option.splits)

lemma read_string_loop_position: "lex_position self \<le> lex_position (read_string_loop self)"
proof (induction self rule: read_string_loop.induct)
  case (1 self)
  show ?case
  proof (cases "current_char self")
    case None
    then show ?thesis by (subst read_string_loop.simps) simp
  next
    case (Some c)
    show ?thesis
    proof (cases "c \<noteq> dquote")
      case True
      have "lex_position (advance (if c = CHR 0x5C then advance self else self))
          \<le> lex_position (read_string_loop (advance (if c = CHR 0x5C then advance self else self)))"
        using "1.IH"[OF Some True] .
      then show ?thesis using Some True by (subst read_string_loop.simps) (simp split: if_splits)
    next
      case False
      then show ?thesis using Some by (subst read_string_loop.simps) simp
    qed
  qed
qed

lemma append_token_source [simp]: "lex_source (append_token self t) = lex_source self"
  by (simp add: append_token_def)

lemma append_token_position [simp]: "lex_position (append_token self t) = lex_position self"
  by (simp add: append_token_def)

lemma skip_whitespace_source [simp]: "lex_source (skip_whitespace self) = lex_source self"
  by (simp add: skip_whitespace_def)

lemma skip_whitespace_position: "lex_position self \<le> lex_position (skip_whitespace self)"
  by (simp add: skip_whitespace_def advance_while_position)

lemma tokenize_round_step:
  assumes r: "tokenize_round self = Inr self1" and c: "current_char (skip_whitespace self) = Some c"
  shows "lex_source self1 = lex_source self \<and> lex_position (skip_whitespace self) < lex_position self1"
proof -
  let ?s = "skip_whitespace self"
  note defs = tokenize_round_def Let_def newline_def dquote_def
  show ?thesis
  proof (cases "c = CHR ''/'' \<and> peek_char ?s 1 = Some (CHR ''/'')")
    case True
    then have "self1 = advance_while (\<lambda>c. c \<noteq> newline) ?s" using r c by (simp add: defs)
    moreover have "lex_position ?s < lex_position (advance_while (\<lambda>c. c \<noteq> newline) ?s)"
      using advance_while_progress[OF c, of "\<lambda>c. c \<noteq> newline"] True by (simp add: newline_def)
    ultimately show ?thesis by simp
  next
    case nc: False
    show ?thesis
    proof (cases "c = newline")
      case True
      then show ?thesis using r c nc by (auto simp: defs)
    next
      case nn: False
      show ?thesis
      proof (cases "py_isdigit c")
        case True
        have "lex_position ?s < lex_position (snd (read_number ?s))"
          using advance_while_progress[OF c, of "\<lambda>c. py_isdigit c \<or> c = CHR ''.''"] True
          by (simp add: read_number_def Let_def)
        moreover have "lex_source (snd (read_number ?s)) = lex_source self"
          by (simp add: read_number_def Let_def)
        ultimately show ?thesis using r c nc nn True by (auto simp: defs split: prod.splits)
      next
        case nd: False
        show ?thesis
        proof (cases "c = dquote")
          case True
          have "\<And>v s2. read_string ?s = Inr (v, s2) \<Longrightarrow>
              lex_position ?s < lex_position s2 \<and> lex_source s2 = lex_source self"
            using read_string_loop_position[of "advance ?s"]
            by (auto simp: read_string_def Let_def split: if_splits)
          then show ?thesis using r c nc nn nd True by (auto simp: defs split: sum.splits)
        next
          case nq: False
          show ?thesis
          proof (cases "py_isalpha c \<or> c = CHR ''_''")
            case True
            have "lex_position ?s < lex_position (snd (read_identifier ?s))"
              using advance_while_progress[OF c, of "\<lambda>c. py_isalnum c \<or> c = CHR ''_''"] True
              by (auto simp: read_identifier_def Let_def py_isalnum_def)
            moreover have "lex_source (snd (read_identifier ?s)) = lex_source self"
              by (simp add: read_identifier_def Let_def)
            ultimately show ?thesis using r c nc nn nd nq True by (auto simp: defs split: prod.splits)
          next
            case na: False
            show ?thesis
            proof (cases "c \<in> set ''+-=!><&|''")
              case True
              define tc where "tc = c # (case peek_char ?s 1 of Some next_char \<Rightarrow> [next_char] | None \<Rightarrow> [])"
              have eq: "tokenize_round self =
                  (case map_of operators tc of
                     Some t \<Rightarrow> Inr (advance (advance (append_token ?s (Token t tc (lex_line ?s) (lex_column ?s)))))
                   | None \<Rightarrow>
                       (case map_of operators [c] of
                          Some t \<Rightarrow> Inr (advance (append_token ?s (Token t [c] (lex_line ?s) (lex_column ?s))))
                        | None \<Rightarrow> Inl (SyntaxError (unknown_character c (lex_line ?s) (lex_column ?s)))))"
                unfolding tokenize_round_def Let_def tc_def
                by (simp only: c option.case nc nn nd nq na True if_False if_True)
              show ?thesis
              proof (cases "map_of operators tc")
                case (Some t)
                then show ?thesis using r eq by auto
              next
                case None
                then show ?thesis using r eq by (cases "map_of operators [c]") auto
              qed
            next
              case no: False
              show ?thesis
              proof (cases "c \<in> set (''*/(){};'' @ [newline])")
                case True
                define tt where "tt = (if c = CHR ''('' then Some LPAREN
                       else if c = CHR '')'' then Some RPAREN
                       else if c = CHR ''{'' then Some LBRACE
                       else if c = CHR ''}'' then Some RBRACE
                       else if c = CHR '';'' then Some SEMICOLON
                       else map_of operators [c])"
                have eq: "tokenize_round self =
                    Inr (advance (case tt of
                                   Some t \<Rightarrow> append_token ?s (Token t [c] (lex_line ?s) (lex_column ?s))
                                 | None \<Rightarrow> ?s))"
                  unfolding tokenize_round_def Let_def tt_def
                  by (simp only: c option.case nc nn nd nq na no True if_False if_True)
                show ?thesis using r eq by (cases tt) auto
              next
                case False
                have "tokenize_round self = Inl (SyntaxError (unknown_character c (lex_line ?s) (lex_column ?s)))"
                  unfolding tokenize_round_def Let_def
                  by (simp only: c option.case nc nn nd nq na no False if_False if_True)
                then show ?thesis using r by simp
              qed
            qed
          qed
        qed
      qed
    qed
  qed
qed

lemma tokenize_round_source: "tokenize_round self = Inr self1 \<Longrightarrow> lex_source self1 = lex_source self"
proof (cases "current_char (skip_whitespace self)")
  case None
  assume "tokenize_round self = Inr self1"
  with None show ?thesis by (auto simp: tokenize_round_def Let_def)
next
  case (Some c)
  assume "tokenize_round self = Inr self1"
  then show ?thesis using tokenize_round_step[OF _ Some] by blast
qed

lemma tokenize_round_progress:
  assumes "tokenize_round self = Inr self1" and "lex_position self < length (lex_source self)"
  shows "lex_position self < lex_position self1"
proof -
  let ?s = "skip_whitespace self"
  have sw: "lex_position self \<le> lex_position ?s" by (rule skip_whitespace_position)
  show ?thesis
  proof (cases "current_char ?s")
    case None
    then have "self1 = ?s" using assms(1) by (simp add: tokenize_round_def Let_def)
    moreover from None have "lex_position ?s \<ge> length (lex_source self)"
      by (simp add: current_char_def split: if_splits)
    ultimately show ?thesis using assms(2) by simp
  next
    case (Some c)
    then show ?thesis using tokenize_round_step[OF assms(1) Some] sw by simp
  qed
qed

text \<open>The \<open>while\<close> loop of \<open>tokenize\<close>; every round moves the position forward.\<close>

function tokenize_loop :: "Lexer \<Rightarrow> error + Lexer" where
  "tokenize_loop self =
     (if lex_position self < length (lex_source self) then
        (case tokenize_round self of
           Inl e \<Rightarrow> Inl e
         | Inr self1 \<Rightarrow> tokenize_loop self1)
      else Inr self)"
  by pat_completeness auto
termination
proof (relation "measure (\<lambda>self. length (lex_source self) - lex_position self)")
  show "wf (measure (\<lambda>self. length (lex_source self) - lex_position self))" by simp
next
  fix self self1
  assume a: "lex_position self < length (lex_source self)" and r: "tokenize_round self = Inr self1"
  have "lex_source self1 = lex_source self" using r by (rule tokenize_round_source)
  moreover have "lex_position self < lex_position self1" using r a by (rule tokenize_round_progress)
  ultimately show "(self1, self) \<in> measure (\<lambda>self. length (lex_source self) - lex_position self)"
    using a by simp
qed

declare tokenize_loop.simps [simp del]

text \<open>\<open>Lexer(source_code).tokenize()\<close>.\<close>

definition tokenize :: "string \<Rightarrow> error + Token list" where
  "tokenize source_code =
     (case tokenize_loop (Lexer_init source_code) of
        Inl e \<Rightarrow> Inl e
      | Inr self \<Rightarrow> Inr (lex_tokens self @ [Token EOF [] (lex_line self) (lex_column self)]))"

subsection \<open>The lexical grammar of the specification\<close>

text \<open>
  The specification describes the lexer by what it reads (section 4.1): it skips spaces,
  tabs and carriage returns; a newline is a token; a comment runs from \<open>//\<close> to the end
  of the line; a number is made of digits and decimal points; a string runs from a
  double quote to the next double quote, a backslash skipping the character after it;
  an identifier is a letter or underscore followed by letters, digits and underscores;
  an operator of two characters is preferred to one of one character; the delimiters
  are \<open>( ) { } ;\<close>; and a character that starts none of these is a failure, as is a
  string that is never closed.

  \<open>first_fault\<close> is a second definition of what the lexer accepts, written from this
  description and not from \<open>lexer.py\<close>, to be compared with \<open>tokenize\<close>. It works on the
  text alone, with no position, line, column or token: it reads the text from the left
  and gives the first failure, an unterminated string or an unknown character together
  with the text after that character, and \<open>None\<close> when the whole text can be read.
  \<open>string_literal_rest\<close> is the text after the closing quote of a string whose opening
  quote has just been read. Digits, letters and alphanumeric characters are those of
  \<open>str.isdigit\<close>, \<open>str.isalpha\<close> and \<open>str.isalnum\<close>; the operators are
  \<open>+ - * / = > < !\<close> and \<open>+= -= == != >= <= && ||\<close>.
\<close>

definition blank :: "char \<Rightarrow> bool" where
  "blank c = (c \<in> set [CHR '' '', CHR 0x09, CHR 0x0D])"

fun string_literal_rest :: "string \<Rightarrow> string option" where
  "string_literal_rest [] = None"
| "string_literal_rest (c # cs) =
     (if c = dquote then Some cs
      else if c = CHR 0x5C then (case cs of [] \<Rightarrow> None | d # ds \<Rightarrow> string_literal_rest ds)
      else string_literal_rest cs)"

definition two_character_operators :: "string list" where
  "two_character_operators = [''+='', ''-='', ''=='', ''!='', ''>='', ''<='', ''&&'', ''||'']"

datatype lexical_fault = UnterminatedString | UnknownCharacter char string

lemma string_literal_rest_length: "string_literal_rest cs = Some rest \<Longrightarrow> length rest < length cs"
  by (induction cs arbitrary: rest rule: string_literal_rest.induct)
     (fastforce split: if_splits list.splits)+

function first_fault :: "string \<Rightarrow> lexical_fault option" where
  "first_fault [] = None"
| "first_fault (c # cs) =
     (if blank c \<or> c = newline then first_fault cs
      else if c = CHR ''/'' \<and> take 1 cs = ''/'' then first_fault (dropWhile (\<lambda>d. d \<noteq> newline) cs)
      else if py_isdigit c then first_fault (dropWhile (\<lambda>d. py_isdigit d \<or> d = CHR ''.'') cs)
      else if c = dquote then
        (case string_literal_rest cs of
           None \<Rightarrow> Some UnterminatedString
         | Some rest \<Rightarrow> first_fault rest)
      else if py_isalpha c \<or> c = CHR ''_'' then
        first_fault (dropWhile (\<lambda>d. py_isalnum d \<or> d = CHR ''_'') cs)
      else if c # take 1 cs \<in> set two_character_operators then first_fault (drop 1 cs)
      else if c \<in> set ''+-*/=><!(){};'' then first_fault cs
      else Some (UnknownCharacter c cs))"
  by pat_completeness auto
termination
  by (relation "measure length")
     (auto simp: less_Suc_eq_le length_dropWhile_le dest: string_literal_rest_length)

declare first_fault.simps [simp del]

text \<open>
  The line and the column that the lexer has reached after reading the text \<open>pre\<close>: lines
  and columns count from 1, a newline starts a new line, and the column is one more
  than the number of characters read since the last newline. \<open>fault_error\<close> is the
  error of a failure: an unterminated string is reported on the last line of the
  source, an unknown character with its own line and column. \<open>counted\<close> says that the
  line and column fields of a lexer agree with its position; the column is only
  followed up to the end of the source.
\<close>

definition line_after :: "string \<Rightarrow> nat" where
  "line_after pre = 1 + count_list pre newline"

definition column_after :: "string \<Rightarrow> nat" where
  "column_after pre = 1 + length (takeWhile (\<lambda>c. c \<noteq> newline) (rev pre))"

definition fault_error :: "string \<Rightarrow> lexical_fault \<Rightarrow> error" where
  "fault_error src f =
     (case f of
        UnterminatedString \<Rightarrow> SyntaxError (unterminated_string (line_after src))
      | UnknownCharacter c rest \<Rightarrow>
          (let pre = take (length src - Suc (length rest)) src
           in SyntaxError (unknown_character c (line_after pre) (column_after pre))))"

definition counted :: "Lexer \<Rightarrow> bool" where
  "counted self =
     (lex_line self = line_after (take (lex_position self) (lex_source self))
      \<and> (lex_position self \<le> length (lex_source self) \<longrightarrow>
           lex_column self = column_after (take (lex_position self) (lex_source self))))"

section \<open>The parser (parser.py)\<close>

text \<open>
  The parser object is its token list, which never changes, and its position. A parsing
  method is a function of the tokens and the position that returns \<open>None\<close> when it does
  not return, \<open>Some (Inl e)\<close> when it raises \<open>e\<close>, and \<open>Some (Inr (x, position))\<close> when it
  returns \<open>x\<close> and leaves the parser at \<open>position\<close>. The recursive methods take a bound
  on the depth of the calls as an argument and give \<open>None\<close> when it is used up.
  \<open>self.tokens[-1]\<close> raises \<open>IndexError\<close> on an empty token list; \<open>parse\<close> tests for it
  once, where the first token is read.
\<close>

type_synonym 'a parsed = "(error + 'a \<times> nat) option"

definition pbind :: "'a parsed \<Rightarrow> ('a \<Rightarrow> nat \<Rightarrow> 'b parsed) \<Rightarrow> 'b parsed" where
  "pbind m f =
     (case m of
        None \<Rightarrow> None
      | Some (Inl e) \<Rightarrow> Some (Inl e)
      | Some (Inr (x, position)) \<Rightarrow> f x position)"

definition preturn :: "'a \<Rightarrow> nat \<Rightarrow> 'a parsed" where
  "preturn x position = Some (Inr (x, position))"

definition praise :: "error \<Rightarrow> 'a parsed" where
  "praise e = Some (Inl e)"

definition current_token :: "Token list \<Rightarrow> nat \<Rightarrow> Token" where
  "current_token tokens position = (if position \<ge> length tokens then last tokens else tokens ! position)"

definition parser_advance :: "Token list \<Rightarrow> nat \<Rightarrow> nat" where
  "parser_advance tokens position = (if position < length tokens - 1 then position + 1 else position)"

definition match :: "Token list \<Rightarrow> nat \<Rightarrow> TokenType list \<Rightarrow> bool" where
  "match tokens position token_types = (tok_type (current_token tokens position) \<in> set token_types)"

definition consume :: "Token list \<Rightarrow> nat \<Rightarrow> TokenType \<Rightarrow> Token parsed" where
  "consume tokens position token_type =
     (if tok_type (current_token tokens position) = token_type
      then preturn (current_token tokens position) (parser_advance tokens position)
      else praise (ParseError (''Expected '' @ str_TokenType token_type @ '', got ''
                     @ str_TokenType (tok_type (current_token tokens position))
                     @ '' at line '' @ str_nat (tok_line (current_token tokens position)))))"

definition unexpected_token :: "Token list \<Rightarrow> nat \<Rightarrow> error" where
  "unexpected_token tokens position =
     ParseError (''Unexpected token '' @ str_TokenType (tok_type (current_token tokens position))
       @ '' at line '' @ str_nat (tok_line (current_token tokens position)))"

text \<open>
  \<open>skip_newlines\<close>: \<open>advance\<close> does not move past the last token, so the loop runs for ever
  when the last token is a \<open>NEWLINE\<close> and is reached.
\<close>

function skip_newlines :: "Token list \<Rightarrow> nat \<Rightarrow> nat option" where
  "skip_newlines tokens position =
     (if match tokens position [NEWLINE] then
        (if position < length tokens - 1 then skip_newlines tokens (position + 1) else None)
      else Some position)"
  by pat_completeness auto
termination
  by (relation "measure (\<lambda>(tokens, position). length tokens - position)") auto

declare skip_newlines.simps [simp del]

definition pskip_newlines :: "Token list \<Rightarrow> nat \<Rightarrow> unit parsed" where
  "pskip_newlines tokens position = map_option (\<lambda>p. Inr ((), p)) (skip_newlines tokens position)"

text \<open>
  The six methods for the binary levels, \<open>parse_logical_or\<close> down to
  \<open>parse_multiplication\<close>, have one body: parse an operand with the next method, then,
  while the current token is one of the operators of the level, take the operator, parse
  another operand and build a \<open>BinaryOperation\<close> to the left. \<open>parse_binary\<close> is that
  body, with the level as an argument.
\<close>

datatype level = LogicalOr | LogicalAnd | Equality | Comparison | Addition | Multiplication

fun level_tokens :: "level \<Rightarrow> TokenType list" where
  "level_tokens LogicalOr = [OR]"
| "level_tokens LogicalAnd = [AND]"
| "level_tokens Equality = [EQUAL, NOT_EQUAL]"
| "level_tokens Comparison = [GREATER, LESS, GREATER_EQUAL, LESS_EQUAL]"
| "level_tokens Addition = [PLUS, MINUS]"
| "level_tokens Multiplication = [MULTIPLY, DIVIDE]"

fun next_level :: "level \<Rightarrow> level option" where
  "next_level LogicalOr = Some LogicalAnd"
| "next_level LogicalAnd = Some Equality"
| "next_level Equality = Some Comparison"
| "next_level Comparison = Some Addition"
| "next_level Addition = Some Multiplication"
| "next_level Multiplication = None"

fun parse_binary :: "'f float_ops \<Rightarrow> nat \<Rightarrow> level \<Rightarrow> Token list \<Rightarrow> nat \<Rightarrow> 'f Expression parsed"
  and parse_operand :: "'f float_ops \<Rightarrow> nat \<Rightarrow> level \<Rightarrow> Token list \<Rightarrow> nat \<Rightarrow> 'f Expression parsed"
  and binary_loop :: "'f float_ops \<Rightarrow> nat \<Rightarrow> level \<Rightarrow> Token list \<Rightarrow> 'f Expression \<Rightarrow> nat \<Rightarrow> 'f Expression parsed"
  and parse_unary :: "'f float_ops \<Rightarrow> nat \<Rightarrow> Token list \<Rightarrow> nat \<Rightarrow> 'f Expression parsed"
  and parse_primary :: "'f float_ops \<Rightarrow> nat \<Rightarrow> Token list \<Rightarrow> nat \<Rightarrow> 'f Expression parsed" where
  "parse_binary fl 0 lvl tokens position = None"
| "parse_binary fl (Suc n) lvl tokens position =
     pbind (parse_operand fl n lvl tokens position) (binary_loop fl n lvl tokens)"
| "parse_operand fl 0 lvl tokens position = None"
| "parse_operand fl (Suc n) lvl tokens position =
     (case next_level lvl of
        Some l \<Rightarrow> parse_binary fl n l tokens position
      | None \<Rightarrow> parse_unary fl n tokens position)"
| "binary_loop fl 0 lvl tokens expr position = None"
| "binary_loop fl (Suc n) lvl tokens expr position =
     (if match tokens position (level_tokens lvl) then
        pbind (parse_operand fl n lvl tokens (parser_advance tokens position))
          (\<lambda>right. binary_loop fl n lvl tokens
             (BinaryOperation expr (tok_value (current_token tokens position)) right))
      else preturn expr position)"
| "parse_unary fl 0 tokens position = None"
| "parse_unary fl (Suc n) tokens position =
     (if match tokens position [NOT, MINUS] then
        pbind (parse_unary fl n tokens (parser_advance tokens position))
          (\<lambda>operand. preturn (UnaryOperation (tok_value (current_token tokens position)) operand))
      else parse_primary fl n tokens position)"
| "parse_primary fl 0 tokens position = None"
| "parse_primary fl (Suc n) tokens position =
     (if match tokens position [NUMBER] then
        (case float_of_str fl (tok_value (current_token tokens position)) of
           None \<Rightarrow> praise ValueError
         | Some v \<Rightarrow> preturn (NumberLiteral v) (parser_advance tokens position))
      else if match tokens position [STRING] then
        preturn (StringLiteral (tok_value (current_token tokens position))) (parser_advance tokens position)
      else if match tokens position [IDENTIFIER] then
        preturn (Identifier (tok_value (current_token tokens position))) (parser_advance tokens position)
      else if match tokens position [LPAREN] then
        pbind (parse_binary fl n LogicalOr tokens (parser_advance tokens position))
          (\<lambda>expr position1. pbind (consume tokens position1 RPAREN) (\<lambda>t. preturn expr))
      else praise (unexpected_token tokens position))"

definition parse_logical_or :: "'f float_ops \<Rightarrow> nat \<Rightarrow> Token list \<Rightarrow> nat \<Rightarrow> 'f Expression parsed" where
  "parse_logical_or fl n tokens position = parse_binary fl n LogicalOr tokens position"

definition parse_expression :: "'f float_ops \<Rightarrow> nat \<Rightarrow> Token list \<Rightarrow> nat \<Rightarrow> 'f Expression parsed" where
  "parse_expression fl n tokens position = parse_logical_or fl n tokens position"

definition parse_print_statement :: "'f float_ops \<Rightarrow> nat \<Rightarrow> Token list \<Rightarrow> nat \<Rightarrow> 'f Statement parsed" where
  "parse_print_statement fl n tokens position =
     pbind (consume tokens position PRINT) (\<lambda>t1 position1.
     pbind (consume tokens position1 LPAREN) (\<lambda>t2 position2.
     pbind (parse_expression fl n tokens position2) (\<lambda>expr position3.
     pbind (consume tokens position3 RPAREN) (\<lambda>t3 position4.
     pbind (consume tokens position4 SEMICOLON) (\<lambda>t4.
     preturn (PrintStatement expr))))))"

definition parse_scan_statement :: "Token list \<Rightarrow> nat \<Rightarrow> 'f Statement parsed" where
  "parse_scan_statement tokens position =
     pbind (consume tokens position SCAN) (\<lambda>t1 position1.
     pbind (consume tokens position1 LPAREN) (\<lambda>t2 position2.
     pbind (consume tokens position2 IDENTIFIER) (\<lambda>target position3.
     pbind (consume tokens position3 RPAREN) (\<lambda>t3 position4.
     pbind (consume tokens position4 SEMICOLON) (\<lambda>t4.
     preturn (ScanStatement (tok_value target)))))))"

definition parse_assignment_statement :: "'f float_ops \<Rightarrow> nat \<Rightarrow> Token list \<Rightarrow> nat \<Rightarrow> 'f Statement parsed" where
  "parse_assignment_statement fl n tokens position =
     pbind (consume tokens position IDENTIFIER) (\<lambda>target position1.
       if match tokens position1 [ASSIGN, PLUS_ASSIGN, MINUS_ASSIGN] then
         pbind (parse_expression fl n tokens (parser_advance tokens position1)) (\<lambda>v position2.
         pbind (consume tokens position2 SEMICOLON) (\<lambda>t.
         preturn (AssignmentStatement (tok_value target) (tok_value (current_token tokens position1)) v)))
       else praise (ParseError (''Expected assignment operator at line ''
                      @ str_nat (tok_line (current_token tokens position1)))))"

text \<open>
  \<open>parse_block\<close> is the loop \<open>while not self.match(RBRACE) and not self.match(EOF)\<close> that
  the bodies of \<open>while\<close>, \<open>if\<close> and \<open>else\<close> are read with.
\<close>

fun parse_statement :: "'f float_ops \<Rightarrow> nat \<Rightarrow> Token list \<Rightarrow> nat \<Rightarrow> 'f Statement option parsed"
  and parse_while_statement :: "'f float_ops \<Rightarrow> nat \<Rightarrow> Token list \<Rightarrow> nat \<Rightarrow> 'f Statement parsed"
  and parse_if_statement :: "'f float_ops \<Rightarrow> nat \<Rightarrow> Token list \<Rightarrow> nat \<Rightarrow> 'f Statement parsed"
  and parse_block :: "'f float_ops \<Rightarrow> nat \<Rightarrow> Token list \<Rightarrow> 'f Statement list \<Rightarrow> nat \<Rightarrow> 'f Statement list parsed" where
  "parse_statement fl 0 tokens position = None"
| "parse_statement fl (Suc n) tokens position =
     pbind (pskip_newlines tokens position) (\<lambda>u position1.
       if match tokens position1 [PRINT] then
         pbind (parse_print_statement fl n tokens position1) (\<lambda>s. preturn (Some s))
       else if match tokens position1 [SCAN] then
         pbind (parse_scan_statement tokens position1) (\<lambda>s. preturn (Some s))
       else if match tokens position1 [WHILE] then
         pbind (parse_while_statement fl n tokens position1) (\<lambda>s. preturn (Some s))
       else if match tokens position1 [IF] then
         pbind (parse_if_statement fl n tokens position1) (\<lambda>s. preturn (Some s))
       else if match tokens position1 [IDENTIFIER] then
         pbind (parse_assignment_statement fl n tokens position1) (\<lambda>s. preturn (Some s))
       else if \<not> match tokens position1 [EOF, NEWLINE] then praise (unexpected_token tokens position1)
       else preturn None position1)"
| "parse_while_statement fl 0 tokens position = None"
| "parse_while_statement fl (Suc n) tokens position =
     pbind (consume tokens position WHILE) (\<lambda>t1 position1.
     pbind (consume tokens position1 LPAREN) (\<lambda>t2 position2.
     pbind (parse_expression fl n tokens position2) (\<lambda>condition position3.
     pbind (consume tokens position3 RPAREN) (\<lambda>t3 position4.
     pbind (consume tokens position4 LBRACE) (\<lambda>t4 position5.
     pbind (pskip_newlines tokens position5) (\<lambda>u position6.
     pbind (parse_block fl n tokens [] position6) (\<lambda>body position7.
     pbind (consume tokens position7 RBRACE) (\<lambda>t5.
     preturn (WhileStatement condition body)))))))))"
| "parse_if_statement fl 0 tokens position = None"
| "parse_if_statement fl (Suc n) tokens position =
     pbind (consume tokens position IF) (\<lambda>t1 position1.
     pbind (consume tokens position1 LPAREN) (\<lambda>t2 position2.
     pbind (parse_expression fl n tokens position2) (\<lambda>condition position3.
     pbind (consume tokens position3 RPAREN) (\<lambda>t3 position4.
     pbind (consume tokens position4 LBRACE) (\<lambda>t4 position5.
     pbind (pskip_newlines tokens position5) (\<lambda>u position6.
     pbind (parse_block fl n tokens [] position6) (\<lambda>then_body position7.
     pbind (consume tokens position7 RBRACE) (\<lambda>t5 position8.
       if match tokens position8 [ELSE] then
         pbind (consume tokens (parser_advance tokens position8) LBRACE) (\<lambda>t6 position9.
         pbind (pskip_newlines tokens position9) (\<lambda>u position10.
         pbind (parse_block fl n tokens [] position10) (\<lambda>else_body position11.
         pbind (consume tokens position11 RBRACE) (\<lambda>t7.
         preturn (IfStatement condition then_body (Some else_body))))))
       else preturn (IfStatement condition then_body None) position8))))))))"
| "parse_block fl 0 tokens body position = None"
| "parse_block fl (Suc n) tokens body position =
     (if \<not> match tokens position [RBRACE] \<and> \<not> match tokens position [EOF] then
        pbind (parse_statement fl n tokens position) (\<lambda>stmt position1.
        pbind (pskip_newlines tokens position1) (\<lambda>u.
        parse_block fl n tokens (case stmt of Some s \<Rightarrow> body @ [s] | None \<Rightarrow> body)))
      else preturn body position)"

text \<open>The loop \<open>while not self.match(EOF)\<close> of \<open>parse\<close>.\<close>

fun parse_loop :: "'f float_ops \<Rightarrow> nat \<Rightarrow> Token list \<Rightarrow> 'f Statement list \<Rightarrow> nat \<Rightarrow> 'f Statement list parsed" where
  "parse_loop fl 0 tokens statements position = None"
| "parse_loop fl (Suc n) tokens statements position =
     (if \<not> match tokens position [EOF] then
        pbind (parse_statement fl n tokens position) (\<lambda>stmt position1.
        pbind (pskip_newlines tokens position1) (\<lambda>u.
        parse_loop fl n tokens (case stmt of Some s \<Rightarrow> statements @ [s] | None \<Rightarrow> statements)))
      else preturn statements position)"

text \<open>\<open>Parser(tokens).parse()\<close>, with the bound on the depth of the calls.\<close>

definition parse :: "'f float_ops \<Rightarrow> nat \<Rightarrow> Token list \<Rightarrow> (error + 'f Program) option" where
  "parse fl n tokens =
     (if tokens = [] then Some (Inl IndexError)
      else
        (case pbind (pskip_newlines tokens 0) (\<lambda>u. parse_loop fl n tokens []) of
           None \<Rightarrow> None
         | Some (Inl e) \<Rightarrow> Some (Inl e)
         | Some (Inr (statements, position)) \<Rightarrow> Some (Inr (Program statements))))"


text \<open>The first two stages of \<open>compile_and_execute\<close>: the lexer, then the parser on its tokens.\<close>

definition parse_source :: "'f float_ops \<Rightarrow> nat \<Rightarrow> string \<Rightarrow> (error + 'f Program) option" where
  "parse_source fl n source_code =
     (case tokenize source_code of
        Inl e \<Rightarrow> Some (Inl e)
      | Inr tokens \<Rightarrow> parse fl n tokens)"

text \<open>The optimizer that \<open>RLOptimizer()\<close> builds, with the concrete float arithmetic.\<close>

definition py_RLOptimizer :: "pyfloat RLOptimizer" where
  "py_RLOptimizer = RLOptimizer_init (Finite (1 / 10)) (Finite (9 / 10)) (Finite (1 / 10))"

text \<open>
  A result with a smaller bound against the result with a larger one: either the smaller
  bound was used up, or the two results are the same.
\<close>

definition fuel_le :: "'a option \<Rightarrow> 'a option \<Rightarrow> bool" where
  "fuel_le a b = (a = None \<or> a = b)"

section \<open>Verified properties\<close>

subsection \<open>Constant folding\<close>

lemma code_changed_iff: "code_changed a b \<longleftrightarrow> a \<noteq> b"
proof -
  have "a = b \<longleftrightarrow> length a = length b \<and> (\<forall>i < min (length a) (length b). a ! i = b ! i)"
    by (metis list_eq_iff_nth_eq min.idem)
  then show ?thesis
    unfolding code_changed_def list_ex_iff by auto
qed

lemma acf_eq: "p < length code \<Longrightarrow> apply_constant_folding fl code p = code[p := fold1 fl (code ! p)]"
  unfolding fold1_def apply_constant_folding_def
  by (auto simp: Let_def split: option.splits)

lemma acf_ge: "p \<ge> length code \<Longrightarrow> apply_constant_folding fl code p = code"
  unfolding apply_constant_folding_def by simp

lemma fold1_cases: "fold1 fl instr = instr \<or> operation (fold1 fl instr) = ''ASSIGN''"
  unfolding fold1_def apply_constant_folding_def
  by (auto simp: Let_def TAC_def split: option.splits)

lemma fold1_assign: "operation instr = ''ASSIGN'' \<Longrightarrow> fold1 fl instr = instr"
  unfolding fold1_def apply_constant_folding_def
  by (auto simp: Let_def arith_ops_def)

lemma fold1_idem: "fold1 fl (fold1 fl instr) = fold1 fl instr"
  using fold1_cases[of fl instr] fold1_assign[of "fold1 fl instr" fl] by auto

lemma fold1_unfoldable:
  "\<not> (operation instr \<in> set arith_ops \<and> is_constant fl (arg1 instr) \<and> is_constant fl (arg2 instr))
     \<Longrightarrow> fold1 fl instr = instr"
  unfolding fold1_def apply_constant_folding_def by (auto simp: Let_def)

lemma constant_folding_step_code:
  assumes "p < length code"
  shows "fst (snd (constant_folding_step fl p (self, code, lg))) = code[p := fold1 fl (code ! p)]"
proof (cases "operation (code ! p) \<in> set arith_ops \<and> is_constant fl (arg1 (code ! p)) \<and> is_constant fl (arg2 (code ! p))")
  case False
  then have "fold1 fl (code ! p) = code ! p" by (rule fold1_unfoldable)
  moreover from False have "constant_folding_step fl p (self, code, lg) = (self, code, lg)"
    unfolding constant_folding_step_def by (auto simp: Let_def)
  ultimately show ?thesis by simp
next
  case True
  show ?thesis
  proof (cases "code_changed (apply_constant_folding fl code p) code")
    case c: True
    with True show ?thesis
      unfolding constant_folding_step_def using acf_eq[OF assms, of fl] by (simp add: Let_def)
  next
    case c: False
    then have "apply_constant_folding fl code p = code" by (simp add: code_changed_iff)
    with True c show ?thesis
      unfolding constant_folding_step_def using acf_eq[OF assms, of fl] by (simp add: Let_def)
  qed
qed

lemma constant_folding_steps_code:
  "n \<le> length code \<Longrightarrow>
     fst (snd (fold (constant_folding_step fl) [0..<n] (self, code, lg))) = map (fold1 fl) (take n code) @ drop n code"
proof (induction n)
  case 0
  then show ?case by simp
next
  case (Suc n)
  obtain self' code' lg' where s: "fold (constant_folding_step fl) [0..<n] (self, code, lg) = (self', code', lg')"
    by (metis prod_cases3)
  from Suc s have c': "code' = map (fold1 fl) (take n code) @ drop n code" by simp
  from Suc.prems have n: "n < length code" by simp
  then have len: "n < length code'" using c' by simp
  have nth: "code' ! n = code ! n" using c' n by (simp add: nth_append)
  have "fst (snd (fold (constant_folding_step fl) [0..<Suc n] (self, code, lg)))
      = code'[n := fold1 fl (code ! n)]"
    using s constant_folding_step_code[OF len, of fl self' lg'] nth by simp
  also have "\<dots> = map (fold1 fl) (take (Suc n) code) @ drop (Suc n) code"
    using n c' by (simp add: take_Suc_conv_app_nth list_update_append Cons_nth_drop_Suc[symmetric])
  finally show ?case .
qed

lemma constant_folding_pass_code:
  "fst (snd (constant_folding_pass fl (self, code, lg))) = map (fold1 fl) code"
  unfolding constant_folding_pass_def using constant_folding_steps_code[of "length code" code fl self lg] by simp

text \<open>
  Claim C7. Constant folding is idempotent: running the first pass of the driver on the
  code that the first pass produced gives that code again, whatever the optimizer
  object and the log are, and \<open>apply_constant_folding\<close> at any position of that code
  returns it unchanged.
\<close>

theorem constant_folding_idempotent:
  "fst (snd (constant_folding_pass fl (self2, fst (snd (constant_folding_pass fl (self1, code, log1))), log2)))
     = fst (snd (constant_folding_pass fl (self1, code, log1)))
   \<and> apply_constant_folding fl (fst (snd (constant_folding_pass fl (self1, code, log1)))) position
     = fst (snd (constant_folding_pass fl (self1, code, log1)))"
proof -
  let ?out = "map (fold1 fl) code"
  have a: "map (fold1 fl) ?out = ?out" by (simp add: fold1_idem)
  have b: "apply_constant_folding fl ?out position = ?out"
  proof (cases "position < length ?out")
    case True
    then show ?thesis using acf_eq[OF True, of fl] by (simp add: fold1_idem list_update_same_conv)
  next
    case False
    then show ?thesis by (simp add: acf_ge)
  qed
  show ?thesis using a b by (simp add: constant_folding_pass_code)
qed


subsection \<open>The IR generator\<close>

lemma digit_char_inj: "a < 10 \<Longrightarrow> b < 10 \<Longrightarrow> digit_char a = digit_char b \<Longrightarrow> a = b"
proof -
  assume a: "a < 10" and b: "b < 10" and e: "digit_char a = digit_char b"
  have A: "a \<in> {0,1,2,3,4,5,6,7,8,9}" using a by auto
  have B: "b \<in> {0,1,2,3,4,5,6,7,8,9}" using b by auto
  show ?thesis using A B e unfolding digit_char_def by auto
qed

lemma str_nat_nonempty: "str_nat n \<noteq> []"
  by (subst str_nat.simps) simp

lemma str_nat_inj: "str_nat n = str_nat m \<Longrightarrow> n = m"
proof (induction n arbitrary: m rule: str_nat.induct)
  case (1 n)
  show ?case
  proof (cases "n < 10")
    case True
    show ?thesis
    proof (cases "m < 10")
      case m: True
      with True "1.prems" show ?thesis
        by (simp add: str_nat.simps[of n] str_nat.simps[of m] digit_char_inj)
    next
      case m: False
      with True "1.prems" show ?thesis
        using str_nat_nonempty[of "m div 10"]
        by (simp add: str_nat.simps[of n] str_nat.simps[of m])
    qed
  next
    case False
    show ?thesis
    proof (cases "m < 10")
      case m: True
      with False "1.prems" show ?thesis
        using str_nat_nonempty[of "n div 10"]
        by (simp add: str_nat.simps[of n] str_nat.simps[of m])
    next
      case m: False
      with False "1.prems" have e: "str_nat (n div 10) = str_nat (m div 10)"
        and d: "digit_char (n mod 10) = digit_char (m mod 10)"
        by (simp_all add: str_nat.simps[of n] str_nat.simps[of m])
      from "1.IH"[OF False e] have "n div 10 = m div 10" .
      moreover from d have "n mod 10 = m mod 10" by (simp add: digit_char_inj)
      ultimately show ?thesis by (metis div_mult_mod_eq)
    qed
  qed
qed

lemma emit_prefix: "emit (with_prefix pre s) opn a b r = with_prefix pre (emit s opn a b r)"
  by (simp add: emit_def with_prefix_def)

lemma new_temp_prefix: "new_temp (with_prefix pre s) = (fst (new_temp s), with_prefix pre (snd (new_temp s)))"
  by (simp add: new_temp_def with_prefix_def Let_def)

lemma new_label_prefix: "new_label (with_prefix pre s) = (fst (new_label s), with_prefix pre (snd (new_label s)))"
  by (simp add: new_label_def with_prefix_def Let_def)

lemma visit_expression_prefix:
  "visit_expression fl e (with_prefix pre self) =
     (fst (visit_expression fl e self), with_prefix pre (snd (visit_expression fl e self)))"
  by (induction e arbitrary: self)
     (simp_all add: emit_prefix new_temp_prefix split: prod.splits)

lemma visit_statement_prefix:
  "visit_statement fl st (with_prefix pre self) = with_prefix pre (visit_statement fl st self)"
  and visit_statements_prefix:
  "visit_statements fl sts (with_prefix pre self) = with_prefix pre (visit_statements fl sts self)"
proof (induction fl st self and fl sts self rule: visit_statement_visit_statements.induct)
  case (1 fl target opr e self)
  then show ?case
    by (simp add: visit_expression_prefix emit_prefix new_temp_prefix split: prod.splits)
next
  case (2 fl e self)
  then show ?case
    by (simp add: visit_expression_prefix emit_prefix split: prod.splits)
next
  case (3 fl target self)
  then show ?case by (simp add: emit_prefix)
next
  case (4 fl cond body self)
  then show ?case
    by (simp add: visit_expression_prefix emit_prefix new_label_prefix Let_def split: prod.splits)
next
  case (5 fl cond then_body else_body self)
  then show ?case
    by (simp add: visit_expression_prefix emit_prefix new_label_prefix Let_def split: prod.splits option.splits list.splits)
next
  case (6 fl self)
  then show ?case by simp
next
  case (7 fl s ss self)
  then show ?case by simp
qed


lemma with_prefix_self: "with_prefix (gen_code self) (self\<lparr>gen_code := []\<rparr>) = self"
  by (simp add: with_prefix_def)

lemma gen_code_with_prefix: "gen_code (with_prefix pre s) = pre @ gen_code s"
  by (simp add: with_prefix_def)

lemma str_nat_eq_iff: "(str_nat k = str_nat n) = (k = n)"
  using str_nat_inj[of k n] by auto


lemma visit_expression_length:
  "length (gen_code (snd (visit_expression fl e self))) = length (gen_code self) + expression_operators e"
  by (induction e arbitrary: self) (simp_all add: new_temp_def emit_def Let_def case_prod_beta)

lemma simple_statement_length:
  assumes "simple_statement st" and "parser_operator st"
  shows "length (gen_code (visit_statement fl st self)) =
     length (gen_code self) + statement_operators st + 1 + (if compound_assignment st then 1 else 0)"
proof (cases st)
  case (AssignmentStatement target opr e)
  with assms show ?thesis
    using visit_expression_length[of fl e self]
    by (auto simp: new_temp_def emit_def Let_def case_prod_beta)
next
  case (PrintStatement e)
  then show ?thesis
    using visit_expression_length[of fl e self]
    by (auto simp: emit_def case_prod_beta)
next
  case (ScanStatement target)
  then show ?thesis by (simp add: emit_def)
next
  case (WhileStatement cond body)
  with assms show ?thesis by simp
next
  case (IfStatement cond then_body else_body)
  with assms show ?thesis by simp
qed

lemma simple_statements_length:
  "list_all simple_statement stmts \<Longrightarrow> list_all parser_operator stmts \<Longrightarrow>
   length (gen_code (visit_statements fl stmts self)) =
     length (gen_code self) + sum_list (map statement_operators stmts) + length stmts
       + length (filter compound_assignment stmts)"
proof (induction stmts arbitrary: self)
  case Nil
  then show ?case by simp
next
  case (Cons st stmts)
  then show ?case
    using simple_statement_length[of st fl self] by simp
qed

text \<open>
  Claim C8, as amended. For every program whose statements are assignments with one of
  the operators \<open>=\<close>, \<open>+=\<close>, \<open>-=\<close>, \<open>print\<close> and \<open>scan\<close> statements, the number of
  instructions that \<open>generate\<close> returns is the number of expression operators plus one
  per statement plus one more per compound assignment.
\<close>

theorem instruction_count:
  assumes "list_all simple_statement stmts" and "list_all parser_operator stmts"
  shows "length (fst (generate fl self (Program stmts))) =
     sum_list (map statement_operators stmts) + length stmts + length (filter compound_assignment stmts)"
  using simple_statements_length[OF assms, of fl "self\<lparr>gen_code := [], temp_counter := 0, label_counter := 0\<rparr>"]
  by (simp add: generate_def visit_program_def Let_def)

theorem instruction_count_witness:
  "list_all simple_statement
     [AssignmentStatement ''x'' ''='' (BinaryOperation (NumberLiteral (Finite 2)) ''+'' (NumberLiteral (Finite 3))),
      AssignmentStatement ''x'' ''+='' (NumberLiteral (Finite 1)),
      PrintStatement (Identifier ''x''), ScanStatement ''y'']
   \<and> list_all parser_operator
     [AssignmentStatement ''x'' ''='' (BinaryOperation (NumberLiteral (Finite 2)) ''+'' (NumberLiteral (Finite 3))),
      AssignmentStatement ''x'' ''+='' (NumberLiteral (Finite 1)),
      PrintStatement (Identifier ''x''), ScanStatement ''y'']
   \<and> length (fst (generate py_floats IntermediateCodeGenerator_init (Program
     [AssignmentStatement ''x'' ''='' (BinaryOperation (NumberLiteral (Finite 2)) ''+'' (NumberLiteral (Finite 3))),
      AssignmentStatement ''x'' ''+='' (NumberLiteral (Finite 1)),
      PrintStatement (Identifier ''x''), ScanStatement ''y'']))) = 6"
  using instruction_count[of
     "[AssignmentStatement ''x'' ''='' (BinaryOperation (NumberLiteral (Finite 2)) ''+'' (NumberLiteral (Finite 3))),
      AssignmentStatement ''x'' ''+='' (NumberLiteral (Finite 1)),
      PrintStatement (Identifier ''x''), ScanStatement ''y'']" py_floats IntermediateCodeGenerator_init]
  by simp

text \<open>
  Claim C8 as stated fails for a compound assignment: \<open>x += 1;\<close> has one statement and no
  expression operator, and two instructions are generated for it.
\<close>

theorem instruction_count_counterexample:
  "list_all simple_statement [AssignmentStatement ''x'' ''+='' (NumberLiteral (Finite 1))]
   \<and> length (fst (generate py_floats IntermediateCodeGenerator_init
        (Program [AssignmentStatement ''x'' ''+='' (NumberLiteral (Finite 1))])))
     \<noteq> sum_list (map statement_operators [AssignmentStatement ''x'' ''+='' (NumberLiteral (Finite 1)) :: pyfloat Statement])
       + length [AssignmentStatement ''x'' ''+='' (NumberLiteral (Finite 1)) :: pyfloat Statement]"
  by (simp add: generate_def visit_program_def IntermediateCodeGenerator_init_def new_temp_def emit_def Let_def)

subsection \<open>The semantic analyzer\<close>

lemma undefined_variable_inject [simp]: "(undefined_variable a = undefined_variable b) = (a = b)"
  by (simp add: undefined_variable_def)

lemma division_by_zero_other [simp]:
  "undefined_variable a \<noteq> ''Division by zero''" "''Division by zero'' \<noteq> undefined_variable a"
  by (simp_all add: undefined_variable_def)

lemma lookup_define_symbol: "lookup (define_symbol t x) y = (y = x \<or> lookup t y)"
  by (cases t) auto

lemma check_expression_table: "symbol_table (check_expression fl e s) = symbol_table s"
  by (induction e arbitrary: s) (simp_all add: Let_def)

lemma mentions_occurrences: "mentions x e = (0 < occurrences x e)"
  by (induction e) auto

lemma check_expression_count:
  "count_list (errors (check_expression fl e s)) (undefined_variable x) =
     count_list (errors s) (undefined_variable x)
       + (if lookup (symbol_table s) x then 0 else occurrences x e)"
  by (induction e arbitrary: s) (auto simp: Let_def check_expression_table)

lemma check_statement_defined:
  "lookup (symbol_table s) x \<Longrightarrow>
     lookup (symbol_table (check_statement fl st s)) x
     \<and> count_list (errors (check_statement fl st s)) (undefined_variable x)
         = count_list (errors s) (undefined_variable x)"
  and check_statements_defined:
  "lookup (symbol_table s) x \<Longrightarrow>
     lookup (symbol_table (check_statements fl sts s)) x
     \<and> count_list (errors (check_statements fl sts s)) (undefined_variable x)
         = count_list (errors s) (undefined_variable x)"
proof (induction fl st s and fl sts s rule: check_statement_check_statements.induct)
  case (5 fl cond then_body else_body self)
  let ?s1 = "check_statements fl then_body (check_expression fl cond self)"
  have a: "lookup (symbol_table ?s1) x
      \<and> count_list (errors ?s1) (undefined_variable x) = count_list (errors self) (undefined_variable x)"
    using "5.IH"(1) "5.prems" by (simp add: check_expression_table check_expression_count)
  show ?case
  proof (cases else_body)
    case None
    then show ?thesis using a by (simp add: Let_def)
  next
    case (Some b)
    show ?thesis
    proof (cases b)
      case Nil
      then show ?thesis using a Some by (simp add: Let_def)
    next
      case (Cons y ys)
      then show ?thesis using a Some "5.IH"(2)[OF refl Some Cons] by (simp add: Let_def)
    qed
  qed
qed (simp_all add: Let_def check_expression_table check_expression_count lookup_define_symbol)

lemma check_statement_unused:
  "first_use x st = None \<Longrightarrow> \<not> lookup (symbol_table s) x \<Longrightarrow>
     \<not> lookup (symbol_table (check_statement fl st s)) x
     \<and> count_list (errors (check_statement fl st s)) (undefined_variable x)
         = count_list (errors s) (undefined_variable x)"
  and check_statements_unused:
  "first_use_in x sts = None \<Longrightarrow> \<not> lookup (symbol_table s) x \<Longrightarrow>
     \<not> lookup (symbol_table (check_statements fl sts s)) x
     \<and> count_list (errors (check_statements fl sts s)) (undefined_variable x)
         = count_list (errors s) (undefined_variable x)"
proof (induction fl st s and fl sts s rule: check_statement_check_statements.induct)
  case (1 fl target opr e self)
  then show ?case
    by (auto simp: Let_def check_expression_table check_expression_count lookup_define_symbol
        mentions_occurrences split: if_splits)
next
  case (2 fl e self)
  then show ?case
    by (simp add: check_expression_table check_expression_count mentions_occurrences split: if_splits)
next
  case (3 fl target self)
  then show ?case by (simp add: lookup_define_symbol split: if_splits)
next
  case (4 fl cond body self)
  then show ?case
    by (simp add: check_expression_table check_expression_count mentions_occurrences split: if_splits)
next
  case (5 fl cond then_body else_body self)
  let ?s1 = "check_statements fl then_body (check_expression fl cond self)"
  have nm: "\<not> mentions x cond" and t: "first_use_in x then_body = None"
    using "5.prems"(1) by (auto split: if_splits option.splits)
  have a: "\<not> lookup (symbol_table ?s1) x
      \<and> count_list (errors ?s1) (undefined_variable x) = count_list (errors self) (undefined_variable x)"
    using "5.IH"(1)[OF t] "5.prems"(2) nm
    by (simp add: check_expression_table check_expression_count mentions_occurrences)
  show ?case
  proof (cases else_body)
    case None
    then show ?thesis using a by (simp add: Let_def)
  next
    case (Some b)
    show ?thesis
    proof (cases b)
      case Nil
      then show ?thesis using a Some by (simp add: Let_def)
    next
      case (Cons y ys)
      have "first_use_in x (y # ys) = None"
        using "5.prems"(1) nm t Some Cons by simp
      then show ?thesis using a Some Cons "5.IH"(2)[OF refl Some Cons] by (simp add: Let_def)
    qed
  qed
next
  case (6 fl self)
  then show ?case by simp
next
  case (7 fl s ss self)
  then show ?case by (simp split: option.splits)
qed

lemma check_statement_first_use:
  "first_use x st = Some (AssignmentStatement x opr e) \<Longrightarrow> \<not> lookup (symbol_table s) x \<Longrightarrow>
     lookup (symbol_table (check_statement fl st s)) x
     \<and> count_list (errors (check_statement fl st s)) (undefined_variable x)
         = count_list (errors s) (undefined_variable x) + occurrences x e"
  and check_statements_first_use:
  "first_use_in x sts = Some (AssignmentStatement x opr e) \<Longrightarrow> \<not> lookup (symbol_table s) x \<Longrightarrow>
     lookup (symbol_table (check_statements fl sts s)) x
     \<and> count_list (errors (check_statements fl sts s)) (undefined_variable x)
         = count_list (errors s) (undefined_variable x) + occurrences x e"
proof (induction fl st s and fl sts s rule: check_statement_check_statements.induct)
  case (1 fl target opr e self)
  then show ?case
    by (auto simp: Let_def check_expression_table check_expression_count lookup_define_symbol
        split: if_splits)
next
  case (2 fl e self)
  then show ?case by (simp split: if_splits)
next
  case (3 fl target self)
  then show ?case by (simp split: if_splits)
next
  case (4 fl cond body self)
  then show ?case
    by (simp add: check_expression_table check_expression_count mentions_occurrences split: if_splits)
next
  case (5 fl cond then_body else_body self)
  let ?s0 = "check_expression fl cond self"
  let ?s1 = "check_statements fl then_body ?s0"
  have nm: "\<not> mentions x cond"
    using "5.prems"(1) by (auto split: if_splits)
  have s0: "\<not> lookup (symbol_table ?s0) x"
    "count_list (errors ?s0) (undefined_variable x) = count_list (errors self) (undefined_variable x)"
    using "5.prems"(2) nm by (simp_all add: check_expression_table check_expression_count mentions_occurrences)
  show ?case
  proof (cases "first_use_in x then_body")
    case (Some u)
    then have u: "first_use_in x then_body = Some (AssignmentStatement x opr e)"
      using "5.prems"(1) nm by simp
    have a: "lookup (symbol_table ?s1) x
        \<and> count_list (errors ?s1) (undefined_variable x)
            = count_list (errors self) (undefined_variable x) + occurrences x e"
      using "5.IH"(1)[OF u s0(1)] s0(2) by simp
    show ?thesis
    proof (cases else_body)
      case None
      then show ?thesis using a by (simp add: Let_def)
    next
      case eb: (Some b)
      show ?thesis
      proof (cases b)
        case Nil
        then show ?thesis using a eb by (simp add: Let_def)
      next
        case (Cons y ys)
        then show ?thesis
          using a eb check_statements_defined[of ?s1 x fl "y # ys"] by (simp add: Let_def)
      qed
    qed
  next
    case None
    have a: "\<not> lookup (symbol_table ?s1) x
        \<and> count_list (errors ?s1) (undefined_variable x) = count_list (errors self) (undefined_variable x)"
      using check_statements_unused[OF None s0(1), of fl] s0(2) by simp
    show ?thesis
    proof (cases else_body)
      case eb: None
      then show ?thesis using "5.prems"(1) nm None by simp
    next
      case eb: (Some b)
      show ?thesis
      proof (cases b)
        case Nil
        then show ?thesis using "5.prems"(1) nm None eb by simp
      next
        case (Cons y ys)
        have "first_use_in x (y # ys) = Some (AssignmentStatement x opr e)"
          using "5.prems"(1) nm None eb Cons by simp
        then show ?thesis
          using a eb Cons "5.IH"(2)[OF refl eb Cons] by (simp add: Let_def)
      qed
    qed
  qed
next
  case (6 fl self)
  then show ?case by simp
next
  case (7 fl s ss self)
  show ?case
  proof (cases "first_use x s")
    case None
    then show ?thesis
      using "7.prems" "7.IH"(2) check_statement_unused[OF None "7.prems"(2), of fl] by simp
  next
    case (Some u)
    then have u: "first_use x s = Some (AssignmentStatement x opr e)"
      using "7.prems"(1) by simp
    show ?thesis
      using "7.IH"(1)[OF u "7.prems"(2)]
        check_statements_defined[of "check_statement fl s self" x fl ss]
      by simp
  qed
qed




subsection \<open>The lexer\<close>

lemma counted_advance: "counted self \<Longrightarrow> counted (advance self)"
proof (cases "lex_position self < length (lex_source self)")
  case True
  assume "counted self"
  then show ?thesis
    using True
    by (auto simp: counted_def line_after_def column_after_def advance_def Let_def take_Suc_conv_app_nth)
next
  case False
  assume "counted self"
  then show ?thesis
    using False by (auto simp: counted_def line_after_def column_after_def advance_def Let_def)
qed

lemma counted_append_token [simp]: "counted (append_token self t) = counted self"
  by (simp add: counted_def append_token_def)

lemma counted_advance_while: "counted self \<Longrightarrow> counted (advance_while P self)"
proof (induction P self rule: advance_while.induct)
  case (1 P self)
  show ?case
  proof (cases "current_char self")
    case None
    then show ?thesis using "1.prems" by (subst advance_while.simps) simp
  next
    case (Some c)
    show ?thesis
    proof (cases "P c")
      case True
      then show ?thesis
        using "1.IH"[OF Some True counted_advance[OF "1.prems"]] Some
        by (subst advance_while.simps) simp
    next
      case False
      then show ?thesis using Some "1.prems" by (subst advance_while.simps) simp
    qed
  qed
qed

lemma current_char_drop:
  "current_char self = (case drop (lex_position self) (lex_source self) of [] \<Rightarrow> None | c # cs \<Rightarrow> Some c)"
  by (auto simp: current_char_def hd_drop_conv_nth split: list.splits)
     (metis Cons_nth_drop_Suc list.inject not_le)

lemma drop_advance:
  "drop (lex_position self) (lex_source self) = c # cs \<Longrightarrow>
   drop (lex_position (advance self)) (lex_source self) = cs"
  by (simp add: drop_Suc[symmetric] del: drop_Suc) (metis drop_Suc tl_drop list.sel(3))

lemma drop_advance_while:
  "drop (lex_position (advance_while P self)) (lex_source self)
     = dropWhile P (drop (lex_position self) (lex_source self))"
proof (induction P self rule: advance_while.induct)
  case (1 P self)
  show ?case
  proof (cases "drop (lex_position self) (lex_source self)")
    case Nil
    then have "current_char self = None" by (simp add: current_char_drop)
    then show ?thesis using Nil by (subst advance_while.simps) simp
  next
    case (Cons c cs)
    then have c: "current_char self = Some c" by (simp add: current_char_drop)
    show ?thesis
    proof (cases "P c")
      case True
      have "drop (lex_position (advance_while P (advance self))) (lex_source self) = dropWhile P cs"
        using "1.IH"[OF c True] drop_advance[OF Cons] by simp
      then show ?thesis using c True Cons by (subst advance_while.simps) simp
    next
      case False
      then show ?thesis using c Cons by (subst advance_while.simps) simp
    qed
  qed
qed

lemma advance_while_stops: "current_char (advance_while P self) = Some c \<Longrightarrow> \<not> P c"
proof (induction P self rule: advance_while.induct)
  case (1 P self)
  show ?case
  proof (cases "current_char self")
    case None
    then show ?thesis using "1.prems" by (subst (asm) advance_while.simps) simp
  next
    case (Some d)
    show ?thesis
    proof (cases "P d")
      case True
      have "current_char (advance_while P (advance self)) = Some c"
        using "1.prems" Some True by (subst (asm) advance_while.simps) simp
      then show ?thesis using "1.IH"[OF Some True] by simp
    next
      case False
      then show ?thesis using "1.prems" Some by (subst (asm) advance_while.simps) simp
    qed
  qed
qed

lemma advance_while_idem: "advance_while P (advance_while P self) = advance_while P self"
proof (cases "current_char (advance_while P self)")
  case None
  then show ?thesis by (subst advance_while.simps) simp
next
  case (Some c)
  then show ?thesis using advance_while_stops[OF Some] by (subst advance_while.simps) simp
qed

lemma skip_whitespace_blank: "skip_whitespace self = advance_while blank self"
  by (simp add: skip_whitespace_def blank_def[abs_def])

lemma tokenize_round_skip: "tokenize_round (skip_whitespace self) = tokenize_round self"
  by (simp add: tokenize_round_def skip_whitespace_blank advance_while_idem)

lemma first_fault_dropWhile_blank: "first_fault (dropWhile blank s) = first_fault s"
  by (induction s) (simp_all add: first_fault.simps(2))

lemma counted_read_string_loop: "counted self \<Longrightarrow> counted (read_string_loop self)"
proof (induction self rule: read_string_loop.induct)
  case (1 self)
  show ?case
  proof (cases "current_char self")
    case None
    then show ?thesis using "1.prems" by (subst read_string_loop.simps) simp
  next
    case (Some c)
    show ?thesis
    proof (cases "c \<noteq> dquote")
      case True
      have "counted (advance (if c = CHR 0x5C then advance self else self))"
        using "1.prems" by (simp add: counted_advance)
      then show ?thesis
        using "1.IH"[OF Some True] Some True
        by (subst read_string_loop.simps) simp
    next
      case False
      then show ?thesis using Some "1.prems" by (subst read_string_loop.simps) simp
    qed
  qed
qed

lemma drop_advance_Nil:
  "drop (lex_position self) (lex_source self) = [] \<Longrightarrow>
   drop (lex_position (advance self)) (lex_source self) = []"
  by simp

lemma read_string_loop_rest:
  "case string_literal_rest (drop (lex_position self) (lex_source self)) of
     None \<Rightarrow> current_char (read_string_loop self) = None
   | Some rest \<Rightarrow> current_char (read_string_loop self) = Some dquote
       \<and> drop (lex_position (advance (read_string_loop self))) (lex_source self) = rest"
proof (induction self rule: read_string_loop.induct)
  case (1 self)
  show ?case
  proof (cases "drop (lex_position self) (lex_source self)")
    case Nil
    then have cc: "current_char self = None" by (simp add: current_char_drop)
    have eq: "read_string_loop self = self"
      using cc by (subst read_string_loop.simps) simp
    show ?thesis unfolding eq using Nil cc by simp
  next
    case (Cons c cs)
    then have c: "current_char self = Some c" by (simp add: current_char_drop)
    show ?thesis
    proof (cases "c = dquote")
      case True
      have eq: "read_string_loop self = self"
        using c True by (subst read_string_loop.simps) simp
      have "drop (lex_position (advance self)) (lex_source self) = cs"
        using Cons by (rule drop_advance)
      then show ?thesis unfolding eq using Cons c True by simp
    next
      case nq: False
      define n where "n = advance (if c = CHR 0x5C then advance self else self)"
      have step: "read_string_loop self = read_string_loop n"
        unfolding n_def using c nq by (subst read_string_loop.simps) simp
      have src: "lex_source n = lex_source self" by (simp add: n_def)
      have ih: "case string_literal_rest (drop (lex_position n) (lex_source self)) of
           None \<Rightarrow> current_char (read_string_loop n) = None
         | Some rest \<Rightarrow> current_char (read_string_loop n) = Some dquote
             \<and> drop (lex_position (advance (read_string_loop n))) (lex_source self) = rest"
        using "1.IH"[OF c nq, folded n_def] unfolding src .
      have key: "string_literal_rest (c # cs) = string_literal_rest (drop (lex_position n) (lex_source self))"
      proof (cases "c = CHR 0x5C")
        case False
        have "drop (lex_position n) (lex_source self) = cs"
          unfolding n_def using False drop_advance[OF Cons] by simp
        then show ?thesis using False nq by simp
      next
        case True
        have a: "drop (lex_position (advance self)) (lex_source (advance self)) = cs"
          using drop_advance[OF Cons] by simp
        show ?thesis
        proof (cases cs)
          case Nil
          have "drop (lex_position n) (lex_source self) = []"
            unfolding n_def using True drop_advance_Nil[of "advance self"] a Nil by simp
          then show ?thesis using True nq Nil by simp
        next
          case (Cons d ds)
          have "drop (lex_position n) (lex_source self) = ds"
            unfolding n_def using True drop_advance[of "advance self" d ds] a Cons by simp
          then show ?thesis using True nq Cons by simp
        qed
      qed
      show ?thesis unfolding step Cons key using ih .
    qed
  qed
qed

lemma peek_char_drop:
  "drop (lex_position self) (lex_source self) = c # cs \<Longrightarrow>
   peek_char self 1 = (case cs of [] \<Rightarrow> None | d # ds \<Rightarrow> Some d)"
proof -
  assume a: "drop (lex_position self) (lex_source self) = c # cs"
  have "drop (lex_position (advance self)) (lex_source (advance self)) = cs"
    using drop_advance[OF a] by simp
  then have "current_char (advance self) = (case cs of [] \<Rightarrow> None | d # ds \<Rightarrow> Some d)"
    by (simp add: current_char_drop)
  moreover have "peek_char self 1 = current_char (advance self)"
    by (simp add: current_char_def peek_char_def Let_def)
  ultimately show ?thesis by simp
qed

lemma two_char_take:
  "c # (case (case cs of [] \<Rightarrow> None | d # ds \<Rightarrow> Some d) of Some next_char \<Rightarrow> [next_char] | None \<Rightarrow> []) = c # take 1 cs"
  by (cases cs) simp_all

lemma ff_skip: "blank c \<or> c = newline \<Longrightarrow> first_fault (c # cs) = first_fault cs"
  by (simp add: first_fault.simps(2))

lemma ff_comment:
  "take 1 cs = ''/'' \<Longrightarrow> first_fault (CHR ''/'' # cs) = first_fault (dropWhile (\<lambda>d. d \<noteq> newline) cs)"
  by (simp add: first_fault.simps(2) blank_def newline_def)

lemma digit_class:
  "py_isdigit c \<Longrightarrow> \<not> blank c \<and> c \<noteq> newline \<and> c \<noteq> CHR ''/'' \<and> c \<noteq> dquote"
  by (auto simp: blank_def newline_def dquote_def py_isdigit_def Let_def)

lemma alpha_not_digit: "py_isalpha c \<Longrightarrow> \<not> py_isdigit c"
  unfolding py_isdigit_def py_isalpha_def Let_def by arith

lemma alpha_class:
  assumes "py_isalpha c"
  shows "\<not> blank c \<and> c \<noteq> newline \<and> c \<noteq> CHR ''/'' \<and> \<not> py_isdigit c \<and> c \<noteq> dquote"
proof -
  have "\<not> py_isalpha (CHR '' '')" "\<not> py_isalpha (CHR 0x09)" "\<not> py_isalpha (CHR 0x0D)"
    "\<not> py_isalpha newline" "\<not> py_isalpha (CHR ''/'')" "\<not> py_isalpha dquote"
    by (simp_all add: py_isalpha_def Let_def newline_def dquote_def)
  then show ?thesis using assms alpha_not_digit[OF assms] by (auto simp: blank_def)
qed

lemma underscore_class:
  "\<not> blank (CHR ''_'') \<and> CHR ''_'' \<noteq> newline \<and> \<not> py_isdigit (CHR ''_'') \<and> CHR ''_'' \<noteq> dquote"
  by (simp add: blank_def newline_def dquote_def py_isdigit_def Let_def)

lemma ff_digit:
  "py_isdigit c \<Longrightarrow> first_fault (c # cs) = first_fault (dropWhile (\<lambda>d. py_isdigit d \<or> d = CHR ''.'') cs)"
  using digit_class[of c] by (simp add: first_fault.simps(2))

lemma ff_string:
  "first_fault (dquote # cs) =
     (case string_literal_rest cs of None \<Rightarrow> Some UnterminatedString | Some rest \<Rightarrow> first_fault rest)"
  by (simp add: first_fault.simps(2) blank_def newline_def dquote_def py_isdigit_def Let_def)

lemma ff_identifier:
  assumes "py_isalpha c \<or> c = CHR ''_''"
  shows "first_fault (c # cs) = first_fault (dropWhile (\<lambda>d. py_isalnum d \<or> d = CHR ''_'') cs)"
proof (cases "c = CHR ''_''")
  case True
  then show ?thesis using underscore_class by (simp add: first_fault.simps(2))
next
  case False
  then have "py_isalpha c" using assms by simp
  then show ?thesis using alpha_class[of c] by (simp add: first_fault.simps(2))
qed

lemma ff_operator:
  assumes "\<not> blank c" "c \<noteq> newline" "\<not> (c = CHR ''/'' \<and> take 1 cs = ''/'')" "\<not> py_isdigit c"
    "c \<noteq> dquote" "\<not> (py_isalpha c \<or> c = CHR ''_'')"
  shows "first_fault (c # cs) =
      (if c # take 1 cs \<in> set two_character_operators then first_fault (drop 1 cs)
       else if c \<in> set ''+-*/=><!(){};'' then first_fault cs
       else Some (UnknownCharacter c cs))"
  by (subst first_fault.simps(2)) (simp only: assms simp_thms if_False)

lemma peek_slash:
  "((case cs of [] \<Rightarrow> None | d # ds \<Rightarrow> Some d) = Some (CHR ''/'')) = (take 1 cs = ''/'')"
  by (cases cs) auto

lemma counted_line_at_end:
  "counted self \<Longrightarrow> current_char self = None \<Longrightarrow> lex_line self = line_after (lex_source self)"
  by (simp add: counted_def current_char_def split: if_splits)

lemma operators_two:
  "c \<in> set ''+-=!><&|'' \<Longrightarrow>
   (map_of operators (c # take 1 cs) \<noteq> None) =
     (c # take 1 cs \<in> set two_character_operators \<or> (cs = [] \<and> c \<in> set ''+-=!><''))"
  by (cases cs) (auto simp: operators_def two_character_operators_def)

lemma operators_one:
  "c \<in> set ''+-=!><&|'' \<Longrightarrow> (map_of operators [c] \<noteq> None) = (c \<in> set ''+-=!><'')"
  by (auto simp: operators_def)

lemma not_two:
  "c \<notin> set ''+-=!><&|'' \<Longrightarrow> c # take 1 cs \<notin> set two_character_operators"
  by (cases cs) (auto simp: two_character_operators_def)

lemma tokenize_round_nonblank:
  assumes cnt: "counted s" and t: "drop (lex_position s) (lex_source s) = c # cs" and nb: "\<not> blank c"
  shows "case tokenize_round s of
           Inl e \<Rightarrow> map_option (fault_error (lex_source s)) (first_fault (c # cs)) = Some e
         | Inr s1 \<Rightarrow> counted s1 \<and> lex_source s1 = lex_source s
                    \<and> first_fault (drop (lex_position s1) (lex_source s)) = first_fault (c # cs)"
proof -
  let ?s = "skip_whitespace s"
  have c0: "current_char s = Some c" using t by (simp add: current_char_drop)
  have sw: "?s = s"
    unfolding skip_whitespace_blank using c0 nb by (subst advance_while.simps) simp
  have c: "current_char ?s = Some c" using c0 sw by simp
  have pk0: "peek_char s 1 = (case cs of [] \<Rightarrow> None | d # ds \<Rightarrow> Some d)"
    using t by (rule peek_char_drop)
  have pk: "peek_char ?s 1 = (case cs of [] \<Rightarrow> None | d # ds \<Rightarrow> Some d)"
    using pk0 sw by simp
  have pos: "lex_position s < length (lex_source s)" using c0 by (rule current_char_Some)
  have len: "length (lex_source s) - lex_position s = Suc (length cs)"
    using arg_cong[OF t, of length] by simp
  have pre: "take (length (lex_source s) - Suc (length cs)) (lex_source s) = take (lex_position s) (lex_source s)"
    using len pos by (metis diff_diff_cancel less_imp_le_nat)
  have adv: "\<And>tk. drop (lex_position (advance (append_token s tk))) (lex_source s) = cs"
    using drop_advance[of "append_token s tk" c cs for tk] t by simp
  have adv0: "drop (lex_position (advance s)) (lex_source s) = cs"
    using drop_advance[OF t] .
  have adv2: "\<And>tk. drop (lex_position (advance (advance (append_token s tk)))) (lex_source s) = drop 1 cs"
    using t by (simp add: drop_Suc) (metis drop_Suc drop_drop list.sel(3) tl_drop plus_1_eq_Suc One_nat_def drop_0)
  have nl: "c \<noteq> newline \<Longrightarrow> \<not> blank c \<and> c \<noteq> newline" using nb by simp
  show ?thesis
  proof (cases "c = CHR ''/'' \<and> peek_char ?s 1 = Some (CHR ''/'')")
    case True
    have eq: "tokenize_round s = Inr (advance_while (\<lambda>c. c \<noteq> newline) ?s)"
      using c True by (simp add: tokenize_round_def Let_def)
    have tk: "take 1 cs = ''/''" using True unfolding pk peek_slash by (rule conjunct2)
    have d: "drop (lex_position (advance_while (\<lambda>c. c \<noteq> newline) s)) (lex_source s)
        = dropWhile (\<lambda>c. c \<noteq> newline) cs"
      unfolding drop_advance_while t using True by (simp add: newline_def)
    have "first_fault (c # cs) = first_fault (dropWhile (\<lambda>c. c \<noteq> newline) cs)"
      using ff_comment[OF tk] True by simp
    then show ?thesis
      unfolding eq sw using d cnt by (simp add: counted_advance_while)
  next
    case nc: False
    then have nc': "\<not> (c = CHR ''/'' \<and> take 1 cs = ''/'')" unfolding pk peek_slash .
    show ?thesis
    proof (cases "c = newline")
      case True
      have eq: "tokenize_round s = Inr (advance (append_token ?s (Token NEWLINE [c] (lex_line ?s) (lex_column ?s))))"
        using c nc True by (simp add: tokenize_round_def Let_def newline_def)
      have "first_fault (c # cs) = first_fault cs" using True by (simp add: ff_skip)
      then show ?thesis
        unfolding eq sw using adv cnt by (simp add: counted_advance)
    next
      case nn: False
      show ?thesis
      proof (cases "py_isdigit c")
        case True
        have eq: "tokenize_round s = (case read_number ?s of (v, self1) \<Rightarrow>
                Inr (append_token self1 (Token NUMBER v (lex_line ?s) (lex_column ?s))))"
          unfolding tokenize_round_def Let_def
          by (simp only: c option.case nc nn True if_False if_True)
        have d: "drop (lex_position (advance_while (\<lambda>c. py_isdigit c \<or> c = CHR ''.'') s)) (lex_source s)
            = dropWhile (\<lambda>c. py_isdigit c \<or> c = CHR ''.'') cs"
          unfolding drop_advance_while t using True by simp
        show ?thesis
          unfolding eq sw using d cnt ff_digit[OF True, of cs]
          by (simp add: read_number_def Let_def counted_advance_while)
      next
        case nd: False
        show ?thesis
        proof (cases "c = dquote")
          case True
          have eq: "tokenize_round s = (case read_string ?s of
                Inl e \<Rightarrow> Inl e
              | Inr (v, self1) \<Rightarrow> Inr (append_token self1 (Token STRING v (lex_line ?s) (lex_column ?s))))"
            using c nc nn nd True by (simp add: tokenize_round_def Let_def dquote_def newline_def)
          let ?r = "read_string_loop (advance s)"
          have cr: "counted ?r" using cnt by (simp add: counted_advance counted_read_string_loop)
          have rs: "case string_literal_rest cs of
               None \<Rightarrow> current_char ?r = None
             | Some rest \<Rightarrow> current_char ?r = Some dquote
                 \<and> drop (lex_position (advance ?r)) (lex_source s) = rest"
            using read_string_loop_rest[of "advance s", unfolded advance_source adv0] .
          show ?thesis
          proof (cases "string_literal_rest cs")
            case None
            then have e: "current_char ?r = None" using rs by simp
            have "lex_line ?r = line_after (lex_source s)"
              using counted_line_at_end[OF cr e] by simp
            then have "read_string s = Inl (SyntaxError (unterminated_string (line_after (lex_source s))))"
              using e by (simp add: read_string_def Let_def)
            moreover have "first_fault (c # cs) = Some UnterminatedString"
              using True None by (simp add: ff_string)
            ultimately show ?thesis unfolding eq sw by (simp add: fault_error_def)
          next
            case (Some rest)
            then have e: "current_char ?r = Some dquote"
              and d: "drop (lex_position (advance ?r)) (lex_source s) = rest"
              using rs by simp_all
            have "read_string s = Inr (slice (lex_source ?r) (lex_position (advance s)) (lex_position ?r), advance ?r)"
              using e by (simp add: read_string_def Let_def)
            moreover have "first_fault (c # cs) = first_fault rest"
              using True Some by (simp add: ff_string)
            ultimately show ?thesis
              unfolding eq sw using d cr by (simp add: counted_advance)
          qed
        next
          case nq: False
          show ?thesis
          proof (cases "py_isalpha c \<or> c = CHR ''_''")
            case True
            have eq: "tokenize_round s = (case read_identifier ?s of (v, self1) \<Rightarrow>
                Inr (append_token self1
                  (Token (case map_of lexer_keywords v of Some t \<Rightarrow> t | None \<Rightarrow> IDENTIFIER) v (lex_line ?s) (lex_column ?s))))"
              unfolding tokenize_round_def Let_def
              by (simp only: c option.case nc nn nd nq True if_False if_True)
            have pc: "py_isalnum c \<or> c = CHR ''_''" using True by (auto simp: py_isalnum_def)
            have d: "drop (lex_position (advance_while (\<lambda>c. py_isalnum c \<or> c = CHR ''_'') s)) (lex_source s)
                = dropWhile (\<lambda>c. py_isalnum c \<or> c = CHR ''_'') cs"
              unfolding drop_advance_while t using pc by simp
            show ?thesis
              unfolding eq sw using d cnt ff_identifier[OF True, of cs]
              by (simp add: read_identifier_def Let_def counted_advance_while)
          next
            case na: False
            have ff: "first_fault (c # cs) =
                (if c # take 1 cs \<in> set two_character_operators then first_fault (drop 1 cs)
                 else if c \<in> set ''+-*/=><!(){};'' then first_fault cs
                 else Some (UnknownCharacter c cs))"
              using nb nn nc' nd nq na by (rule ff_operator)
            have unknown: "fault_error (lex_source s) (UnknownCharacter c cs)
                = SyntaxError (unknown_character c (lex_line s) (lex_column s))"
              using cnt pos by (simp add: fault_error_def pre counted_def Let_def)
            show ?thesis
            proof (cases "c \<in> set ''+-=!><&|''")
              case True
              define tc where "tc = c # (case peek_char ?s 1 of Some next_char \<Rightarrow> [next_char] | None \<Rightarrow> [])"
              have eq: "tokenize_round s =
                  (case map_of operators tc of
                     Some t \<Rightarrow> Inr (advance (advance (append_token ?s (Token t tc (lex_line ?s) (lex_column ?s)))))
                   | None \<Rightarrow>
                       (case map_of operators [c] of
                          Some t \<Rightarrow> Inr (advance (append_token ?s (Token t [c] (lex_line ?s) (lex_column ?s))))
                        | None \<Rightarrow> Inl (SyntaxError (unknown_character c (lex_line ?s) (lex_column ?s)))))"
                unfolding tokenize_round_def Let_def tc_def
                by (simp only: c option.case nc nn nd nq na True if_False if_True)
              have tc: "tc = c # take 1 cs" unfolding tc_def pk by (rule two_char_take)
              show ?thesis
              proof (cases "map_of operators tc")
                case (Some t)
                then have "c # take 1 cs \<in> set two_character_operators \<or> (cs = [] \<and> c \<in> set ''+-=!><'')"
                  using operators_two[OF True, of cs] tc by simp
                then have "first_fault (c # cs) = first_fault (drop 1 cs)"
                  unfolding ff by auto
                then show ?thesis
                  unfolding eq sw using Some adv2 cnt by (simp add: counted_advance)
              next
                case None
                then have n2: "c # take 1 cs \<notin> set two_character_operators"
                  using operators_two[OF True, of cs] tc by simp
                show ?thesis
                proof (cases "map_of operators [c]")
                  case (Some t)
                  then have "c \<in> set ''+-=!><''" using operators_one[OF True] by simp
                  then have "first_fault (c # cs) = first_fault cs"
                    unfolding ff using n2 by auto
                  then show ?thesis
                    unfolding eq sw using None Some adv cnt by (simp add: counted_advance)
                next
                  case n1: None
                  then have "c \<notin> set ''+-=!><''" using operators_one[OF True] by simp
                  then have "c \<notin> set ''+-*/=><!(){};''" using True by auto
                  then have "first_fault (c # cs) = Some (UnknownCharacter c cs)"
                    unfolding ff using n2 by simp
                  then show ?thesis
                    unfolding eq sw using None n1 unknown by simp
                qed
              qed
            next
              case no: False
              have n2: "c # take 1 cs \<notin> set two_character_operators" using no by (rule not_two)
              show ?thesis
              proof (cases "c \<in> set (''*/(){};'' @ [newline])")
                case True
                define tt where "tt = (if c = CHR ''('' then Some LPAREN
                       else if c = CHR '')'' then Some RPAREN
                       else if c = CHR ''{'' then Some LBRACE
                       else if c = CHR ''}'' then Some RBRACE
                       else if c = CHR '';'' then Some SEMICOLON
                       else map_of operators [c])"
                have eq: "tokenize_round s =
                    Inr (advance (case tt of
                                   Some t \<Rightarrow> append_token ?s (Token t [c] (lex_line ?s) (lex_column ?s))
                                 | None \<Rightarrow> ?s))"
                  unfolding tokenize_round_def Let_def tt_def
                  by (simp only: c option.case nc nn nd nq na no True if_False if_True)
                have "c \<in> set ''+-*/=><!(){};''" using True nn by auto
                then have f: "first_fault (c # cs) = first_fault cs"
                  unfolding ff using n2 by simp
                show ?thesis
                  unfolding eq sw using f adv adv0 cnt by (cases tt) (simp_all add: counted_advance)
              next
                case False
                have eq: "tokenize_round s = Inl (SyntaxError (unknown_character c (lex_line ?s) (lex_column ?s)))"
                  unfolding tokenize_round_def Let_def
                  by (simp only: c option.case nc nn nd nq na no False if_False if_True)
                have "c \<notin> set ''+-*/=><!(){};''" using False no by auto
                then have "first_fault (c # cs) = Some (UnknownCharacter c cs)"
                  unfolding ff using n2 by simp
                then show ?thesis
                  unfolding eq sw using unknown by simp
              qed
            qed
          qed
        qed
      qed
    qed
  qed
qed

lemma tokenize_round_fault:
  assumes cnt: "counted s"
  shows "case tokenize_round s of
           Inl e \<Rightarrow> map_option (fault_error (lex_source s))
                      (first_fault (drop (lex_position s) (lex_source s))) = Some e
         | Inr s1 \<Rightarrow> counted s1 \<and> lex_source s1 = lex_source s
                    \<and> first_fault (drop (lex_position s1) (lex_source s))
                        = first_fault (drop (lex_position s) (lex_source s))"
proof -
  define w where "w = skip_whitespace s"
  have cw: "counted w" unfolding w_def skip_whitespace_blank using cnt by (rule counted_advance_while)
  have src: "lex_source w = lex_source s" by (simp add: w_def)
  have dw: "drop (lex_position w) (lex_source s)
      = dropWhile blank (drop (lex_position s) (lex_source s))"
    unfolding w_def skip_whitespace_blank by (rule drop_advance_while)
  have ff: "first_fault (drop (lex_position w) (lex_source s))
      = first_fault (drop (lex_position s) (lex_source s))"
    unfolding dw by (rule first_fault_dropWhile_blank)
  have round: "tokenize_round s = tokenize_round w"
    unfolding w_def by (rule tokenize_round_skip[symmetric])
  have idem: "skip_whitespace w = w"
    unfolding w_def skip_whitespace_blank by (rule advance_while_idem)
  show ?thesis
  proof (cases "drop (lex_position w) (lex_source w)")
    case Nil
    then have "current_char w = None" by (simp add: current_char_drop)
    then have "tokenize_round w = Inr w"
      using idem by (simp add: tokenize_round_def Let_def)
    then show ?thesis unfolding round using cw src ff by simp
  next
    case (Cons c cs)
    then have "current_char w = Some c" by (simp add: current_char_drop)
    then have nb: "\<not> blank c"
      unfolding w_def skip_whitespace_blank by (rule advance_while_stops)
    have f: "first_fault (c # cs) = first_fault (drop (lex_position s) (lex_source s))"
      using ff Cons src by simp
    show ?thesis
      using tokenize_round_nonblank[OF cw Cons nb]
      unfolding round src f by (cases "tokenize_round w") simp_all
  qed
qed

lemma tokenize_loop_fault:
  "counted s \<Longrightarrow>
   (case tokenize_loop s of
      Inl e \<Rightarrow> map_option (fault_error (lex_source s))
                 (first_fault (drop (lex_position s) (lex_source s))) = Some e
    | Inr s1 \<Rightarrow> first_fault (drop (lex_position s) (lex_source s)) = None)"
proof (induction s rule: tokenize_loop.induct)
  case (1 self)
  show ?case
  proof (cases "lex_position self < length (lex_source self)")
    case False
    then have "tokenize_loop self = Inr self" by (subst tokenize_loop.simps) simp
    then show ?thesis using False by (simp add: first_fault.simps(1))
  next
    case True
    show ?thesis
    proof (cases "tokenize_round self")
      case (Inl e)
      then have "tokenize_loop self = Inl e" using True by (subst tokenize_loop.simps) simp
      then show ?thesis using tokenize_round_fault[OF "1.prems"] Inl by simp
    next
      case (Inr self1)
      then have step: "tokenize_loop self = tokenize_loop self1"
        using True by (subst tokenize_loop.simps) simp
      have r: "counted self1" "lex_source self1 = lex_source self"
        "first_fault (drop (lex_position self1) (lex_source self))
           = first_fault (drop (lex_position self) (lex_source self))"
        using tokenize_round_fault[OF "1.prems"] Inr by simp_all
      show ?thesis
        using "1.IH"[OF True Inr r(1)] unfolding step r(2) r(3) .
    qed
  qed
qed

lemma string_literal_rest_suffix:
  "string_literal_rest cs = Some rest \<Longrightarrow> \<exists>pre. cs = pre @ rest"
proof (induction cs rule: string_literal_rest.induct)
  case 1
  then show ?case by simp
next
  case (2 c cs)
  show ?case
  proof (cases "c = dquote")
    case True
    then have "c # cs = [c] @ rest" using "2.prems" by simp
    then show ?thesis by blast
  next
    case nq: False
    show ?thesis
    proof (cases "c = CHR 0x5C")
      case True
      then obtain d ds where cs: "cs = d # ds" and r: "string_literal_rest ds = Some rest"
        using "2.prems" nq by (cases cs) simp_all
      from "2.IH"(1)[OF nq True cs r] obtain pre where "ds = pre @ rest" by blast
      then have "c # cs = (c # d # pre) @ rest" using cs by simp
      then show ?thesis by blast
    next
      case False
      then have "string_literal_rest cs = Some rest" using "2.prems" nq by simp
      from "2.IH"(2)[OF nq False this] obtain pre where "cs = pre @ rest" by blast
      then have "c # cs = (c # pre) @ rest" by simp
      then show ?thesis by blast
    qed
  qed
qed

lemma first_fault_suffix:
  "first_fault s = Some (UnknownCharacter c rest) \<Longrightarrow> \<exists>pre. s = pre @ c # rest"
proof (induction s rule: first_fault.induct)
  case 1
  then show ?case by (simp add: first_fault.simps(1))
next
  case (2 a cs)
  note ff = first_fault.simps(2)[of a cs]
  have ext: "\<And>u. (\<exists>pre. u = pre @ c # rest) \<Longrightarrow> (\<exists>mid. cs = mid @ u) \<Longrightarrow> \<exists>pre. a # cs = pre @ c # rest"
  proof -
    fix u assume "\<exists>pre. u = pre @ c # rest" "\<exists>mid. cs = mid @ u"
    then obtain pre mid where "u = pre @ c # rest" "cs = mid @ u" by blast
    then have "a # cs = (a # mid @ pre) @ c # rest" by simp
    then show "\<exists>pre. a # cs = pre @ c # rest" by blast
  qed
  show ?case
  proof (cases "blank a \<or> a = newline")
    case True
    have "first_fault cs = Some (UnknownCharacter c rest)"
      using "2.prems" unfolding ff_skip[OF True] .
    from "2.IH"(1)[OF True this] show ?thesis by (rule ext) (rule exI[of _ "[]"], simp)
  next
    case n1: False
    show ?thesis
    proof (cases "a = CHR ''/'' \<and> take 1 cs = ''/''")
      case True
      then have a: "a = CHR ''/''" and tk: "take 1 cs = ''/''" by simp_all
      have "first_fault (dropWhile (\<lambda>d. d \<noteq> newline) cs) = Some (UnknownCharacter c rest)"
        using "2.prems" unfolding a ff_comment[OF tk] .
      from "2.IH"(2)[OF n1 True this] show ?thesis
        by (rule ext) (rule exI[of _ "takeWhile (\<lambda>d. d \<noteq> newline) cs"], simp)
    next
      case n2: False
      show ?thesis
      proof (cases "py_isdigit a")
        case True
        have "first_fault (dropWhile (\<lambda>d. py_isdigit d \<or> d = CHR ''.'') cs) = Some (UnknownCharacter c rest)"
          using "2.prems" unfolding ff_digit[OF True] .
        from "2.IH"(3)[OF n1 n2 True this] show ?thesis
          by (rule ext) (rule exI[of _ "takeWhile (\<lambda>d. py_isdigit d \<or> d = CHR ''.'') cs"], simp)
      next
        case n3: False
        show ?thesis
        proof (cases "a = dquote")
          case True
          have "(case string_literal_rest cs of None \<Rightarrow> Some UnterminatedString | Some r \<Rightarrow> first_fault r)
              = Some (UnknownCharacter c rest)"
            using "2.prems" unfolding True ff_string .
          then obtain r where r: "string_literal_rest cs = Some r"
            and f: "first_fault r = Some (UnknownCharacter c rest)"
            by (cases "string_literal_rest cs") simp_all
          from "2.IH"(4)[OF n1 n2 n3 True r f] show ?thesis
            by (rule ext) (rule string_literal_rest_suffix[OF r])
        next
          case n4: False
          show ?thesis
          proof (cases "py_isalpha a \<or> a = CHR ''_''")
            case True
            have "first_fault (dropWhile (\<lambda>d. py_isalnum d \<or> d = CHR ''_'') cs) = Some (UnknownCharacter c rest)"
              using "2.prems" unfolding ff_identifier[OF True] .
            from "2.IH"(5)[OF n1 n2 n3 n4 True this] show ?thesis
              by (rule ext) (rule exI[of _ "takeWhile (\<lambda>d. py_isalnum d \<or> d = CHR ''_'') cs"], simp)
          next
            case n5: False
            have ff': "first_fault (a # cs) =
                (if a # take 1 cs \<in> set two_character_operators then first_fault (drop 1 cs)
                 else if a \<in> set ''+-*/=><!(){};'' then first_fault cs
                 else Some (UnknownCharacter a cs))"
              using n1 n2 n3 n4 n5 by (intro ff_operator) simp_all
            show ?thesis
            proof (cases "a # take 1 cs \<in> set two_character_operators")
              case True
              then have "first_fault (drop 1 cs) = Some (UnknownCharacter c rest)"
                using "2.prems" ff' by simp
              from "2.IH"(6)[OF n1 n2 n3 n4 n5 True this] show ?thesis
                by (rule ext) (rule exI[of _ "take 1 cs"], simp)
            next
              case n6: False
              show ?thesis
              proof (cases "a \<in> set ''+-*/=><!(){};''")
                case True
                then have "first_fault cs = Some (UnknownCharacter c rest)"
                  using "2.prems" ff' n6 by simp
                from "2.IH"(7)[OF n1 n2 n3 n4 n5 n6 True this] show ?thesis
                  by (rule ext) (rule exI[of _ "[]"], simp)
              next
                case False
                then have "a = c \<and> cs = rest" using "2.prems" ff' n6 by simp
                then have "a # cs = [] @ c # rest" by simp
                then show ?thesis by blast
              qed
            qed
          qed
        qed
      qed
    qed
  qed
qed

lemma init_source: "lex_source (Lexer_init source_code) = source_code"
  by (simp add: Lexer_init_def)

lemma init_position: "lex_position (Lexer_init source_code) = 0"
  by (simp add: Lexer_init_def)

lemma counted_init: "counted (Lexer_init source_code)"
  by (simp add: counted_def Lexer_init_def line_after_def column_after_def)




subsection \<open>The parser\<close>

lemma fuel_le_refl [simp]: "fuel_le a a"
  by (simp add: fuel_le_def)

lemma fuel_le_None [simp]: "fuel_le None a"
  by (simp add: fuel_le_def)

lemma fuel_le_trans: "fuel_le a b \<Longrightarrow> fuel_le b c \<Longrightarrow> fuel_le a c"
  by (auto simp: fuel_le_def)

lemma fuel_le_Some: "fuel_le a b \<Longrightarrow> a = Some r \<Longrightarrow> b = Some r"
  by (auto simp: fuel_le_def)

lemma pbind_le:
  "fuel_le a a' \<Longrightarrow> (\<And>x p. fuel_le (f x p) (f' x p)) \<Longrightarrow> fuel_le (pbind a f) (pbind a' f')"
  by (auto simp: fuel_le_def pbind_def split: option.splits sum.splits)

lemma if_le:
  "(c \<Longrightarrow> fuel_le a a') \<Longrightarrow> (\<not> c \<Longrightarrow> fuel_le b b') \<Longrightarrow> fuel_le (if c then a else b) (if c then a' else b')"
  by simp

lemma expression_fuel_step:
  "(\<forall>lvl tokens p. fuel_le (parse_binary fl n lvl tokens p) (parse_binary fl (Suc n) lvl tokens p)) \<and>
   (\<forall>lvl tokens p. fuel_le (parse_operand fl n lvl tokens p) (parse_operand fl (Suc n) lvl tokens p)) \<and>
   (\<forall>lvl tokens e p. fuel_le (binary_loop fl n lvl tokens e p) (binary_loop fl (Suc n) lvl tokens e p)) \<and>
   (\<forall>tokens p. fuel_le (parse_unary fl n tokens p) (parse_unary fl (Suc n) tokens p)) \<and>
   (\<forall>tokens p. fuel_le (parse_primary fl n tokens p) (parse_primary fl (Suc n) tokens p))"
proof (induction n)
  case 0
  then show ?case by simp
next
  case (Suc n)
  have b: "\<And>lvl tokens p. fuel_le (parse_binary fl n lvl tokens p) (parse_binary fl (Suc n) lvl tokens p)"
    and o: "\<And>lvl tokens p. fuel_le (parse_operand fl n lvl tokens p) (parse_operand fl (Suc n) lvl tokens p)"
    and l: "\<And>lvl tokens e p. fuel_le (binary_loop fl n lvl tokens e p) (binary_loop fl (Suc n) lvl tokens e p)"
    and u: "\<And>tokens p. fuel_le (parse_unary fl n tokens p) (parse_unary fl (Suc n) tokens p)"
    and pr: "\<And>tokens p. fuel_le (parse_primary fl n tokens p) (parse_primary fl (Suc n) tokens p)"
    using Suc by blast+
  have 1: "fuel_le (parse_binary fl (Suc n) lvl tokens p) (parse_binary fl (Suc (Suc n)) lvl tokens p)" for lvl tokens p
    apply (simp only: parse_binary.simps(2)[of fl n])
    apply (simp only: parse_binary.simps(2)[of fl "Suc n"])
    apply (intro pbind_le o l)
    done
  have 2: "fuel_le (parse_operand fl (Suc n) lvl tokens p) (parse_operand fl (Suc (Suc n)) lvl tokens p)" for lvl tokens p
    apply (simp only: parse_operand.simps(2)[of fl n])
    apply (simp only: parse_operand.simps(2)[of fl "Suc n"])
    apply (cases "next_level lvl")
     apply (simp_all only: option.case b u)
    done
  have 3: "fuel_le (binary_loop fl (Suc n) lvl tokens e p) (binary_loop fl (Suc (Suc n)) lvl tokens e p)" for lvl tokens e p
    apply (simp only: binary_loop.simps(2)[of fl n])
    apply (simp only: binary_loop.simps(2)[of fl "Suc n"])
    apply (intro if_le pbind_le o l fuel_le_refl)
    done
  have 4: "fuel_le (parse_unary fl (Suc n) tokens p) (parse_unary fl (Suc (Suc n)) tokens p)" for tokens p
    apply (simp only: parse_unary.simps(2)[of fl n])
    apply (simp only: parse_unary.simps(2)[of fl "Suc n"])
    apply (intro if_le pbind_le u pr fuel_le_refl)
    done
  have 5: "fuel_le (parse_primary fl (Suc n) tokens p) (parse_primary fl (Suc (Suc n)) tokens p)" for tokens p
    apply (simp only: parse_primary.simps(2)[of fl n])
    apply (simp only: parse_primary.simps(2)[of fl "Suc n"])
    apply (intro if_le pbind_le b fuel_le_refl)
    done
  show ?case using 1 2 3 4 5 by blast
qed

lemma parse_expression_fuel_step:
  "fuel_le (parse_expression fl n tokens p) (parse_expression fl (Suc n) tokens p)"
  using expression_fuel_step[of fl n] by (simp add: parse_expression_def parse_logical_or_def)

lemma statement_fuel_step:
  "(\<forall>tokens p. fuel_le (parse_statement fl n tokens p) (parse_statement fl (Suc n) tokens p)) \<and>
   (\<forall>tokens p. fuel_le (parse_while_statement fl n tokens p) (parse_while_statement fl (Suc n) tokens p)) \<and>
   (\<forall>tokens p. fuel_le (parse_if_statement fl n tokens p) (parse_if_statement fl (Suc n) tokens p)) \<and>
   (\<forall>tokens body p. fuel_le (parse_block fl n tokens body p) (parse_block fl (Suc n) tokens body p))"
proof (induction n)
  case 0
  then show ?case by simp
next
  case (Suc n)
  have s: "\<And>tokens p. fuel_le (parse_statement fl n tokens p) (parse_statement fl (Suc n) tokens p)"
    and w: "\<And>tokens p. fuel_le (parse_while_statement fl n tokens p) (parse_while_statement fl (Suc n) tokens p)"
    and i: "\<And>tokens p. fuel_le (parse_if_statement fl n tokens p) (parse_if_statement fl (Suc n) tokens p)"
    and b: "\<And>tokens body p. fuel_le (parse_block fl n tokens body p) (parse_block fl (Suc n) tokens body p)"
    using Suc by blast+
  note e = parse_expression_fuel_step
  have pr: "fuel_le (parse_print_statement fl n tokens p) (parse_print_statement fl (Suc n) tokens p)" for tokens p
    unfolding parse_print_statement_def by (intro pbind_le e fuel_le_refl)
  have asg: "fuel_le (parse_assignment_statement fl n tokens p) (parse_assignment_statement fl (Suc n) tokens p)" for tokens p
    unfolding parse_assignment_statement_def by (intro pbind_le if_le e fuel_le_refl)
  have 1: "fuel_le (parse_statement fl (Suc n) tokens p) (parse_statement fl (Suc (Suc n)) tokens p)" for tokens p
    apply (simp only: parse_statement.simps(2)[of fl n])
    apply (simp only: parse_statement.simps(2)[of fl "Suc n"])
    apply (intro pbind_le if_le w i pr asg fuel_le_refl)
    done
  have 2: "fuel_le (parse_while_statement fl (Suc n) tokens p) (parse_while_statement fl (Suc (Suc n)) tokens p)" for tokens p
    apply (simp only: parse_while_statement.simps(2)[of fl n])
    apply (simp only: parse_while_statement.simps(2)[of fl "Suc n"])
    apply (intro pbind_le if_le e b fuel_le_refl)
    done
  have 3: "fuel_le (parse_if_statement fl (Suc n) tokens p) (parse_if_statement fl (Suc (Suc n)) tokens p)" for tokens p
    apply (simp only: parse_if_statement.simps(2)[of fl n])
    apply (simp only: parse_if_statement.simps(2)[of fl "Suc n"])
    apply (intro pbind_le if_le e b fuel_le_refl)
    done
  have 4: "fuel_le (parse_block fl (Suc n) tokens body p) (parse_block fl (Suc (Suc n)) tokens body p)" for tokens body p
    apply (simp only: parse_block.simps(2)[of fl n])
    apply (simp only: parse_block.simps(2)[of fl "Suc n"])
    apply (intro pbind_le if_le s b fuel_le_refl)
    done
  show ?case using 1 2 3 4 by blast
qed

lemma parse_loop_fuel_step:
  "fuel_le (parse_loop fl n tokens statements p) (parse_loop fl (Suc n) tokens statements p)"
proof (induction n arbitrary: statements p)
  case 0
  then show ?case by simp
next
  case (Suc n)
  have s: "\<And>tokens p. fuel_le (parse_statement fl n tokens p) (parse_statement fl (Suc n) tokens p)"
    using statement_fuel_step[of fl n] by blast
  show ?case
    apply (simp only: parse_loop.simps(2)[of fl n])
    apply (simp only: parse_loop.simps(2)[of fl "Suc n"])
    apply (intro pbind_le if_le s Suc fuel_le_refl)
    done
qed

lemma parse_fuel_step: "fuel_le (parse fl n tokens) (parse fl (Suc n) tokens)"
proof -
  have "fuel_le (pbind (pskip_newlines tokens 0) (\<lambda>u. parse_loop fl n tokens []))
          (pbind (pskip_newlines tokens 0) (\<lambda>u. parse_loop fl (Suc n) tokens []))"
    by (intro pbind_le parse_loop_fuel_step fuel_le_refl)
  then show ?thesis
    by (auto simp: parse_def fuel_le_def split: option.splits sum.splits)
qed

lemma parse_fuel_mono: "parse fl n tokens = Some r \<Longrightarrow> parse fl (n + k) tokens = Some r"
proof (induction k)
  case 0
  then show ?case by simp
next
  case (Suc k)
  then show ?case using fuel_le_Some[OF parse_fuel_step[of fl "n + k" tokens]] by simp
qed

lemma parse_source_fuel_mono: "parse_source fl n src = Some r \<Longrightarrow> parse_source fl (n + k) src = Some r"
  by (auto simp: parse_source_def parse_fuel_mono split: sum.splits)

text \<open>
  Claim C9. \<open>RBRACE\<close> and \<open>RPAREN\<close> are one token type, so \<open>consume\<close> asked for one accepts
  the other, and the source \<open>print(1};\<close> is parsed to the same program as \<open>print(1);\<close>, for
  every bound on the depth of the calls from 40 on.
\<close>

theorem mismatched_closing_delimiter:
  "RBRACE = RPAREN
   \<and> consume tokens position RBRACE = consume tokens position RPAREN
   \<and> parse_source py_floats (40 + n) ''print(1};'' = Some (Inr (Program [PrintStatement (NumberLiteral (Finite 1))]))
   \<and> parse_source py_floats (40 + n) ''print(1);'' = Some (Inr (Program [PrintStatement (NumberLiteral (Finite 1))]))"
proof -
  have a: "parse_source py_floats 40 ''print(1};'' = Some (Inr (Program [PrintStatement (NumberLiteral (Finite 1))]))"
    by code_simp
  have b: "parse_source py_floats 40 ''print(1);'' = Some (Inr (Program [PrintStatement (NumberLiteral (Finite 1))]))"
    by code_simp
  show ?thesis
    using parse_source_fuel_mono[OF a, of n] parse_source_fuel_mono[OF b, of n] by (simp add: RBRACE_def)
qed


subsection \<open>The optimizer driver\<close>

lemma analyze_code_q_table: "q_table (analyze_code fl self code) = q_table self"
  by (simp add: analyze_code_def split: prod.splits)

lemma constant_folding_step_q_table:
  "q_table (fst (constant_folding_step fl p s)) = q_table (fst s)"
  by (cases s) (simp add: constant_folding_step_def Let_def analyze_code_q_table)

lemma constant_folding_steps_q_table:
  "q_table (fst (fold (constant_folding_step fl) ps s)) = q_table (fst s)"
  by (induction ps arbitrary: s) (simp_all add: constant_folding_step_q_table)

lemma constant_folding_pass_q_table:
  "q_table (fst (constant_folding_pass fl s)) = q_table (fst s)"
  by (cases s) (simp add: constant_folding_pass_def constant_folding_steps_q_table)

lemma loop_invariant_pass_q_table:
  "q_table (fst (loop_invariant_pass fl cas s)) = q_table (fst s)"
proof (induction cas arbitrary: s)
  case Nil
  then show ?case by (cases s) simp
next
  case (Cons ca cas)
  obtain self code lg loops where s: "s = (self, code, lg, loops)" by (cases s) auto
  show ?case
    unfolding s
    by (simp add: Cons.IH analyze_code_q_table Let_def split: option.splits sum.splits)
qed

lemma dead_code_pass_q_table:
  "q_table (fst (dead_code_pass fl position s)) = q_table (fst s)"
proof (induction fl position s rule: dead_code_pass.induct)
  case (1 fl position self optimized_code optimization_log)
  let ?instr = "optimized_code ! position"
  let ?new = "apply_dead_code_elimination self optimized_code position"
  let ?c = "(case result ?instr of None \<Rightarrow> False
             | Some r \<Rightarrow> r \<noteq> [] \<and> \<not> is_variable_used_later self optimized_code position r)
            \<and> operation ?instr \<notin> set side_effect_ops \<and> length ?new \<noteq> length optimized_code"
  show ?case
  proof (cases "position < length optimized_code")
    case False
    then show ?thesis by (subst dead_code_pass.simps) simp
  next
    case True
    have eq: "dead_code_pass fl position (self, optimized_code, optimization_log) =
        (if ?c then dead_code_pass fl position (analyze_code fl self ?new, ?new,
              optimization_log @ [''Applied dead_code_elimination at position '' @ str_nat position @ '' (reward: 25.00)''])
         else dead_code_pass fl (position + 1) (self, optimized_code, optimization_log))"
      using True by (subst dead_code_pass.simps) (simp only: Let_def if_True)
    show ?thesis
    proof (cases ?c)
      case c: True
      have "q_table (fst (dead_code_pass fl position (self, optimized_code, optimization_log)))
          = q_table (fst (dead_code_pass fl position (analyze_code fl self ?new, ?new,
              optimization_log @ [''Applied dead_code_elimination at position '' @ str_nat position @ '' (reward: 25.00)''])))"
        by (simp only: eq if_P[OF c])
      also have "\<dots> = q_table (analyze_code fl self ?new)"
        using "1.IH"(1)[OF True refl refl c] by simp
      finally show ?thesis by (simp add: analyze_code_q_table)
    next
      case c: False
      have "q_table (fst (dead_code_pass fl position (self, optimized_code, optimization_log)))
          = q_table (fst (dead_code_pass fl (position + 1) (self, optimized_code, optimization_log)))"
        by (simp only: eq if_not_P[OF c])
      also have "\<dots> = q_table self"
        using "1.IH"(2)[OF True refl refl c] by simp
      finally show ?thesis by simp
    qed
  qed
qed

lemma optimize_passes_q_table:
  "q_table (fst (optimize_passes fl self code)) = q_table self"
proof -
  obtain self1 code1 log1 where p1: "constant_folding_pass fl (analyze_code fl self code, code, []) = (self1, code1, log1)"
    by (metis prod_cases3)
  have q1: "q_table self1 = q_table self"
    using constant_folding_pass_q_table[of fl "(analyze_code fl self code, code, [])"] p1
    by (simp add: analyze_code_q_table)
  show ?thesis
  proof (cases "find_constant_assignments fl code1 (find_loops code1)")
    case (Inl e)
    then show ?thesis by (simp add: optimize_passes_def p1 q1 Let_def)
  next
    case (Inr cas)
    obtain self2 out2 where p2: "loop_invariant_pass fl cas (self1, code1, log1, find_loops code1) = (self2, out2)"
      by (cases "loop_invariant_pass fl cas (self1, code1, log1, find_loops code1)") auto
    have q2: "q_table self2 = q_table self"
      using loop_invariant_pass_q_table[of fl cas "(self1, code1, log1, find_loops code1)"] p2 q1 by simp
    show ?thesis
    proof (cases out2)
      case None
      then show ?thesis by (simp add: optimize_passes_def p1 Inr p2 q2 Let_def)
    next
      case (Some r)
      show ?thesis
      proof (cases r)
        case (Inl e)
        then show ?thesis by (simp add: optimize_passes_def p1 Inr p2 Some q2 Let_def)
      next
        case r: (Inr cl)
        obtain code2 log2 where cl: "cl = (code2, log2)" by (cases cl) auto
        obtain self3 code3 log3 where p3: "dead_code_pass fl 0 (self2, code2, log2) = (self3, code3, log3)"
          by (metis prod_cases3)
        have q3: "q_table self3 = q_table self"
          using dead_code_pass_q_table[of fl 0 "(self2, code2, log2)"] p3 q2 by simp
        show ?thesis by (simp add: optimize_passes_def p1 Inr p2 Some r cl p3 q3 Let_def)
      qed
    qed
  qed
qed

lemma fst_optimize: "fst (optimize fl self code) = fst (optimize_passes fl self code)"
  by (simp add: optimize_def split: prod.splits option.splits sum.splits)

lemma snd_optimize:
  "snd (optimize fl self code) =
     (case snd (optimize_passes fl self code) of
        None \<Rightarrow> None
      | Some (Inl e) \<Rightarrow> Some (Inl e)
      | Some (Inr (code3, log3)) \<Rightarrow> map_option (\<lambda>optimized_code. Inr (optimized_code, log3)) (fix_loop_control_flow code3))"
  by (simp add: optimize_def split: prod.splits option.splits sum.splits)

text \<open>
  Claim C6. For every instruction sequence, the Q-table of the optimizer object after
  \<open>optimize\<close> is the Q-table before, whether the call returns, raises or does not return.
\<close>

theorem optimize_keeps_q_table:
  "q_table (fst (optimize fl self code)) = q_table self"
  by (simp add: fst_optimize optimize_passes_q_table)

lemma fix_loop_control_flow_stuck:
  assumes "condition_fix c [0..<length c] = Some c"
  shows "fix_loop_control_flow c = None"
proof (rule ccontr)
  assume "fix_loop_control_flow c \<noteq> None"
  then obtain y where y: "fix_loop_control_flow c = Some y" by auto
  have "c \<noteq> c"
  proof (rule fix_loop_control_flow.raw_induct[where P = "\<lambda>code r. code \<noteq> c", OF _ y])
    fix f code r
    assume ih: "\<And>code r. f code = Some r \<Longrightarrow> code \<noteq> c"
      and st: "(case condition_fix code [0..<length code] of
                  None \<Rightarrow> (case increment_fix code [0..<length code] of None \<Rightarrow> Some code | Some new_code \<Rightarrow> f new_code)
                | Some new_code \<Rightarrow> f new_code) = Some r"
    show "code \<noteq> c"
    proof
      assume "code = c"
      with st assms have "f c = Some r" by simp
      with ih show False by blast
    qed
  qed
  then show False by simp
qed

text \<open>
  Claim C4. \<open>fix_loop_control_flow\<close> does not return on the code that the first three
  passes produce for the source \<open>x = 0; while (1) { x = x + 1; }\<close>: the operand of the
  \<open>IF_FALSE\<close> has no definition, the loop variable found is \<open>x\<close>, which holds neither \<open>i\<close>
  nor \<open>j\<close>, so nothing is inserted and the function calls itself with the same code.
\<close>

theorem fix_loop_control_flow_diverges:
  "fix_loop_control_flow
     [TAC ''ASSIGN'' (Some ''0.0'') None (Some ''x''),
      TAC ''LABEL'' (Some ''L1'') None None,
      TAC ''IF_FALSE'' (Some ''1.0'') (Some ''L2'') None,
      TAC ''+'' (Some ''x'') (Some ''1.0'') (Some ''t1''),
      TAC ''GOTO'' (Some ''L1'') None None,
      TAC ''LABEL'' (Some ''L2'') None None] = None
   \<and> parse_source py_floats 40 ''x = 0; while (1) { x = x + 1; }'' = Some (Inr (Program
         [AssignmentStatement ''x'' ''='' (NumberLiteral (Finite 0)),
          WhileStatement (NumberLiteral (Finite 1))
           [AssignmentStatement ''x'' ''='' (BinaryOperation (Identifier ''x'') ''+'' (NumberLiteral (Finite 1)))]]))
   \<and> fst (analyze py_floats SemanticAnalyzer_init (Program
         [AssignmentStatement ''x'' ''='' (NumberLiteral (Finite 0)),
          WhileStatement (NumberLiteral (Finite 1))
           [AssignmentStatement ''x'' ''='' (BinaryOperation (Identifier ''x'') ''+'' (NumberLiteral (Finite 1)))]])) = []
   \<and> fst (generate py_floats IntermediateCodeGenerator_init (Program
         [AssignmentStatement ''x'' ''='' (NumberLiteral (Finite 0)),
          WhileStatement (NumberLiteral (Finite 1))
           [AssignmentStatement ''x'' ''='' (BinaryOperation (Identifier ''x'') ''+'' (NumberLiteral (Finite 1)))]]))
      = [TAC ''ASSIGN'' (Some ''0.0'') None (Some ''x''),
      TAC ''LABEL'' (Some ''L1'') None None,
      TAC ''IF_FALSE'' (Some ''1.0'') (Some ''L2'') None,
      TAC ''+'' (Some ''x'') (Some ''1.0'') (Some ''t1''),
      TAC ''ASSIGN'' (Some ''t1'') None (Some ''x''),
      TAC ''GOTO'' (Some ''L1'') None None,
      TAC ''LABEL'' (Some ''L2'') None None]
   \<and> snd (optimize_passes py_floats py_RLOptimizer
        [TAC ''ASSIGN'' (Some ''0.0'') None (Some ''x''),
      TAC ''LABEL'' (Some ''L1'') None None,
      TAC ''IF_FALSE'' (Some ''1.0'') (Some ''L2'') None,
      TAC ''+'' (Some ''x'') (Some ''1.0'') (Some ''t1''),
      TAC ''ASSIGN'' (Some ''t1'') None (Some ''x''),
      TAC ''GOTO'' (Some ''L1'') None None,
      TAC ''LABEL'' (Some ''L2'') None None])
      = Some (Inr ([TAC ''ASSIGN'' (Some ''0.0'') None (Some ''x''),
      TAC ''LABEL'' (Some ''L1'') None None,
      TAC ''IF_FALSE'' (Some ''1.0'') (Some ''L2'') None,
      TAC ''+'' (Some ''x'') (Some ''1.0'') (Some ''t1''),
      TAC ''GOTO'' (Some ''L1'') None None,
      TAC ''LABEL'' (Some ''L2'') None None], [''Applied dead_code_elimination at position 4 (reward: 25.00)'']))
   \<and> snd (optimize py_floats py_RLOptimizer
        [TAC ''ASSIGN'' (Some ''0.0'') None (Some ''x''),
      TAC ''LABEL'' (Some ''L1'') None None,
      TAC ''IF_FALSE'' (Some ''1.0'') (Some ''L2'') None,
      TAC ''+'' (Some ''x'') (Some ''1.0'') (Some ''t1''),
      TAC ''ASSIGN'' (Some ''t1'') None (Some ''x''),
      TAC ''GOTO'' (Some ''L1'') None None,
      TAC ''LABEL'' (Some ''L2'') None None]) = None"
proof -
  have stuck: "condition_fix [TAC ''ASSIGN'' (Some ''0.0'') None (Some ''x''),
      TAC ''LABEL'' (Some ''L1'') None None,
      TAC ''IF_FALSE'' (Some ''1.0'') (Some ''L2'') None,
      TAC ''+'' (Some ''x'') (Some ''1.0'') (Some ''t1''),
      TAC ''GOTO'' (Some ''L1'') None None,
      TAC ''LABEL'' (Some ''L2'') None None]
      [0..<length [TAC ''ASSIGN'' (Some ''0.0'') None (Some ''x''),
      TAC ''LABEL'' (Some ''L1'') None None,
      TAC ''IF_FALSE'' (Some ''1.0'') (Some ''L2'') None,
      TAC ''+'' (Some ''x'') (Some ''1.0'') (Some ''t1''),
      TAC ''GOTO'' (Some ''L1'') None None,
      TAC ''LABEL'' (Some ''L2'') None None]] = Some [TAC ''ASSIGN'' (Some ''0.0'') None (Some ''x''),
      TAC ''LABEL'' (Some ''L1'') None None,
      TAC ''IF_FALSE'' (Some ''1.0'') (Some ''L2'') None,
      TAC ''+'' (Some ''x'') (Some ''1.0'') (Some ''t1''),
      TAC ''GOTO'' (Some ''L1'') None None,
      TAC ''LABEL'' (Some ''L2'') None None]"
    by code_simp
  have a: "fix_loop_control_flow
     [TAC ''ASSIGN'' (Some ''0.0'') None (Some ''x''),
      TAC ''LABEL'' (Some ''L1'') None None,
      TAC ''IF_FALSE'' (Some ''1.0'') (Some ''L2'') None,
      TAC ''+'' (Some ''x'') (Some ''1.0'') (Some ''t1''),
      TAC ''GOTO'' (Some ''L1'') None None,
      TAC ''LABEL'' (Some ''L2'') None None] = None"
    using stuck by (rule fix_loop_control_flow_stuck)
  have b: "parse_source py_floats 40 ''x = 0; while (1) { x = x + 1; }'' = Some (Inr (Program
         [AssignmentStatement ''x'' ''='' (NumberLiteral (Finite 0)),
          WhileStatement (NumberLiteral (Finite 1))
           [AssignmentStatement ''x'' ''='' (BinaryOperation (Identifier ''x'') ''+'' (NumberLiteral (Finite 1)))]]))"
    by code_simp
  have c: "fst (analyze py_floats SemanticAnalyzer_init (Program
         [AssignmentStatement ''x'' ''='' (NumberLiteral (Finite 0)),
          WhileStatement (NumberLiteral (Finite 1))
           [AssignmentStatement ''x'' ''='' (BinaryOperation (Identifier ''x'') ''+'' (NumberLiteral (Finite 1)))]])) = []"
    by code_simp
  have d: "fst (generate py_floats IntermediateCodeGenerator_init (Program
         [AssignmentStatement ''x'' ''='' (NumberLiteral (Finite 0)),
          WhileStatement (NumberLiteral (Finite 1))
           [AssignmentStatement ''x'' ''='' (BinaryOperation (Identifier ''x'') ''+'' (NumberLiteral (Finite 1)))]]))
      = [TAC ''ASSIGN'' (Some ''0.0'') None (Some ''x''),
      TAC ''LABEL'' (Some ''L1'') None None,
      TAC ''IF_FALSE'' (Some ''1.0'') (Some ''L2'') None,
      TAC ''+'' (Some ''x'') (Some ''1.0'') (Some ''t1''),
      TAC ''ASSIGN'' (Some ''t1'') None (Some ''x''),
      TAC ''GOTO'' (Some ''L1'') None None,
      TAC ''LABEL'' (Some ''L2'') None None]"
    by code_simp
  have e: "snd (optimize_passes py_floats py_RLOptimizer
        [TAC ''ASSIGN'' (Some ''0.0'') None (Some ''x''),
      TAC ''LABEL'' (Some ''L1'') None None,
      TAC ''IF_FALSE'' (Some ''1.0'') (Some ''L2'') None,
      TAC ''+'' (Some ''x'') (Some ''1.0'') (Some ''t1''),
      TAC ''ASSIGN'' (Some ''t1'') None (Some ''x''),
      TAC ''GOTO'' (Some ''L1'') None None,
      TAC ''LABEL'' (Some ''L2'') None None])
      = Some (Inr ([TAC ''ASSIGN'' (Some ''0.0'') None (Some ''x''),
      TAC ''LABEL'' (Some ''L1'') None None,
      TAC ''IF_FALSE'' (Some ''1.0'') (Some ''L2'') None,
      TAC ''+'' (Some ''x'') (Some ''1.0'') (Some ''t1''),
      TAC ''GOTO'' (Some ''L1'') None None,
      TAC ''LABEL'' (Some ''L2'') None None], [''Applied dead_code_elimination at position 4 (reward: 25.00)'']))"
    by code_simp
  have f: "snd (optimize py_floats py_RLOptimizer
        [TAC ''ASSIGN'' (Some ''0.0'') None (Some ''x''),
      TAC ''LABEL'' (Some ''L1'') None None,
      TAC ''IF_FALSE'' (Some ''1.0'') (Some ''L2'') None,
      TAC ''+'' (Some ''x'') (Some ''1.0'') (Some ''t1''),
      TAC ''ASSIGN'' (Some ''t1'') None (Some ''x''),
      TAC ''GOTO'' (Some ''L1'') None None,
      TAC ''LABEL'' (Some ''L2'') None None]) = None"
    by (simp only: snd_optimize e option.case sum.case prod.case a option.map)
  show ?thesis using a b c d e f by blast
qed

text \<open>
  Dead-code elimination keeps the instructions with effects, and, right after
  \<open>analyze_code\<close> on the same code, \<open>apply_dead_code_elimination\<close> keeps an instruction
  whose result is read at a later position, provided \<open>is_constant\<close> does not take the name
  of the result for a constant.
\<close>

lemma analyze_arg_keeps: "recorded_use usage r i \<Longrightarrow> recorded_use (analyze_arg fl k a usage) r i"
  by (auto simp: recorded_use_def analyze_arg_def Let_def split: option.splits)

lemma analyze_arg_adds:
  "a = Some r \<Longrightarrow> r \<noteq> [] \<Longrightarrow> \<not> is_constant fl (Some r) \<Longrightarrow> recorded_use (analyze_arg fl i a usage) r i"
  by (auto simp: recorded_use_def analyze_arg_def Let_def split: option.splits)

lemma analyze_defs_keeps:
  "recorded_use (fst ud) r i \<Longrightarrow> recorded_use (fst (analyze_defs k instr ud)) r i"
  by (cases ud) (auto simp: recorded_use_def analyze_defs_def Let_def split: option.splits)

lemma analyze_instr_keeps:
  "recorded_use (fst ud) r i \<Longrightarrow> recorded_use (fst (analyze_instr fl p ud)) r i"
proof -
  assume a: "recorded_use (fst ud) r i"
  obtain k instr where p: "p = (k, instr)" by (cases p) auto
  obtain u d where ad: "analyze_defs k instr ud = (u, d)" by (cases "analyze_defs k instr ud") auto
  have "recorded_use u r i" using analyze_defs_keeps[OF a, of k instr] ad by simp
  then show ?thesis
    by (simp add: analyze_instr_def p ad analyze_arg_keeps)
qed

lemma analyze_instr_adds:
  assumes "arg1 instr = Some r \<or> arg2 instr = Some r" and "r \<noteq> []" and "\<not> is_constant fl (Some r)"
  shows "recorded_use (fst (analyze_instr fl (i, instr) ud)) r i"
proof -
  obtain u d where ad: "analyze_defs i instr ud = (u, d)" by (cases "analyze_defs i instr ud") auto
  show ?thesis
  proof (cases "arg2 instr = Some r")
    case True
    then show ?thesis using assms(2,3) by (simp add: analyze_instr_def ad analyze_arg_adds)
  next
    case False
    then have "arg1 instr = Some r" using assms(1) by simp
    then have "recorded_use (analyze_arg fl i (arg1 instr) u) r i"
      using assms(2,3) by (simp add: analyze_arg_adds)
    then show ?thesis by (simp add: analyze_instr_def ad analyze_arg_keeps)
  qed
qed

lemma analyze_fold_keeps:
  "recorded_use (fst ud) r i \<Longrightarrow> recorded_use (fst (fold (analyze_instr fl) ps ud)) r i"
  by (induction ps arbitrary: ud) (simp_all add: analyze_instr_keeps)

lemma analyze_fold_adds:
  assumes "(i, instr) \<in> set ps" and "arg1 instr = Some r \<or> arg2 instr = Some r"
    and "r \<noteq> []" and "\<not> is_constant fl (Some r)"
  shows "recorded_use (fst (fold (analyze_instr fl) ps ud)) r i"
  using assms(1)
proof (induction ps arbitrary: ud)
  case Nil
  then show ?case by simp
next
  case (Cons p ps)
  show ?case
  proof (cases "p = (i, instr)")
    case True
    have "recorded_use (fst (analyze_instr fl (i, instr) ud)) r i"
      using assms(2-4) by (rule analyze_instr_adds)
    then show ?thesis using True by (simp add: analyze_fold_keeps)
  next
    case False
    then have "(i, instr) \<in> set ps" using Cons.prems by simp
    then show ?thesis using Cons.IH by simp
  qed
qed

lemma analyze_code_records_use:
  assumes "q < length code" and "arg1 (code ! q) = Some r \<or> arg2 (code ! q) = Some r"
    and "r \<noteq> []" and "\<not> is_constant fl (Some r)"
  shows "recorded_use (variable_usage (analyze_code fl self code)) r q"
proof -
  have "(q, code ! q) \<in> set (enumerate 0 code)"
    using assms(1) by (simp add: in_set_enumerate_eq)
  from analyze_fold_adds[OF this assms(2-4), of "(Map.empty, Map.empty)"]
  show ?thesis by (auto simp: analyze_code_def split: prod.splits)
qed

lemma dead_code_elimination_keeps_read_definition:
  assumes "result (code ! p) = Some r" and "p < q" and "q < length code"
    and "arg1 (code ! q) = Some r \<or> arg2 (code ! q) = Some r"
    and "r \<noteq> []" and "\<not> is_constant fl (Some r)"
  shows "apply_dead_code_elimination (analyze_code fl self code) code p = code"
proof -
  have "recorded_use (variable_usage (analyze_code fl self code)) r q"
    using assms(3-6) by (rule analyze_code_records_use)
  then have "is_variable_used_later (analyze_code fl self code) code p r"
    using assms(2) by (auto simp: recorded_use_def is_variable_used_later_def split: option.splits)
  then show ?thesis
    using assms(1,5) by (simp add: apply_dead_code_elimination_def Let_def)
qed

lemma delete_at_filter:
  "p < length xs \<Longrightarrow> \<not> P (xs ! p) \<Longrightarrow> filter P (delete_at xs p) = filter P xs"
proof -
  assume a: "p < length xs" and b: "\<not> P (xs ! p)"
  have "xs = take p xs @ xs ! p # drop (Suc p) xs" using a by (simp add: id_take_nth_drop[symmetric])
  then have "filter P xs = filter P (take p xs) @ filter P (drop (Suc p) xs)"
    using b by (metis filter.simps(2) filter_append)
  then show ?thesis by (simp add: delete_at_def)
qed

lemma apply_dead_code_elimination_keeps_effects:
  "filter (\<lambda>instr. operation instr \<in> set side_effect_ops) (apply_dead_code_elimination self code p)
     = filter (\<lambda>instr. operation instr \<in> set side_effect_ops) code"
  by (auto simp: apply_dead_code_elimination_def Let_def delete_at_filter split: option.splits)

lemma dead_code_pass_keeps_effects:
  "filter (\<lambda>instr. operation instr \<in> set side_effect_ops) (fst (snd (dead_code_pass fl position s)))
     = filter (\<lambda>instr. operation instr \<in> set side_effect_ops) (fst (snd s))"
proof (induction fl position s rule: dead_code_pass.induct)
  case (1 fl position self optimized_code optimization_log)
  let ?instr = "optimized_code ! position"
  let ?new = "apply_dead_code_elimination self optimized_code position"
  let ?c = "(case result ?instr of None \<Rightarrow> False
             | Some r \<Rightarrow> r \<noteq> [] \<and> \<not> is_variable_used_later self optimized_code position r)
            \<and> operation ?instr \<notin> set side_effect_ops \<and> length ?new \<noteq> length optimized_code"
  let ?F = "filter (\<lambda>instr. operation instr \<in> set side_effect_ops)"
  show ?case
  proof (cases "position < length optimized_code")
    case False
    then show ?thesis by (subst dead_code_pass.simps) simp
  next
    case True
    have eq: "dead_code_pass fl position (self, optimized_code, optimization_log) =
        (if ?c then dead_code_pass fl position (analyze_code fl self ?new, ?new,
              optimization_log @ [''Applied dead_code_elimination at position '' @ str_nat position @ '' (reward: 25.00)''])
         else dead_code_pass fl (position + 1) (self, optimized_code, optimization_log))"
      using True by (subst dead_code_pass.simps) (simp only: Let_def if_True)
    show ?thesis
    proof (cases ?c)
      case c: True
      have "?F (fst (snd (dead_code_pass fl position (self, optimized_code, optimization_log))))
          = ?F (fst (snd (dead_code_pass fl position (analyze_code fl self ?new, ?new,
              optimization_log @ [''Applied dead_code_elimination at position '' @ str_nat position @ '' (reward: 25.00)'']))))"
        by (simp only: eq if_P[OF c])
      also have "\<dots> = ?F ?new"
        using "1.IH"(1)[OF True refl refl c] by simp
      finally show ?thesis by (simp add: apply_dead_code_elimination_keeps_effects)
    next
      case c: False
      have "?F (fst (snd (dead_code_pass fl position (self, optimized_code, optimization_log))))
          = ?F (fst (snd (dead_code_pass fl (position + 1) (self, optimized_code, optimization_log))))"
        by (simp only: eq if_not_P[OF c])
      also have "\<dots> = ?F optimized_code"
        using "1.IH"(2)[OF True refl refl c] by simp
      finally show ?thesis by simp
    qed
  qed
qed


text \<open>
  Claim C3. At the source \<open>inf = 1; print(inf);\<close>, which the analyzer accepts, the name
  \<open>inf\<close> is read by \<open>PRINT inf\<close>, yet \<open>apply_dead_code_elimination\<close> at position 0 and the
  third pass of \<open>optimize\<close> remove the assignment to it: \<open>is_constant\<close> takes the name for a
  number, so \<open>analyze_code\<close> records no use of it.
\<close>

theorem dead_code_elimination_removes_used_definition:
  "parse_source py_floats 40 ''inf = 1; print(inf);'' = Some (Inr (Program
         [AssignmentStatement ''inf'' ''='' (NumberLiteral (Finite 1)),
          PrintStatement (Identifier ''inf'')]))
   \<and> fst (analyze py_floats SemanticAnalyzer_init (Program
         [AssignmentStatement ''inf'' ''='' (NumberLiteral (Finite 1)),
          PrintStatement (Identifier ''inf'')])) = []
   \<and> fst (generate py_floats IntermediateCodeGenerator_init (Program
         [AssignmentStatement ''inf'' ''='' (NumberLiteral (Finite 1)),
          PrintStatement (Identifier ''inf'')]))
      = [TAC ''ASSIGN'' (Some ''1.0'') None (Some ''inf''), TAC ''PRINT'' (Some ''inf'') None None]
   \<and> apply_dead_code_elimination
        (analyze_code py_floats py_RLOptimizer
           [TAC ''ASSIGN'' (Some ''1.0'') None (Some ''inf''), TAC ''PRINT'' (Some ''inf'') None None])
        [TAC ''ASSIGN'' (Some ''1.0'') None (Some ''inf''), TAC ''PRINT'' (Some ''inf'') None None] 0
      = [TAC ''PRINT'' (Some ''inf'') None None]
   \<and> snd (optimize py_floats py_RLOptimizer
        [TAC ''ASSIGN'' (Some ''1.0'') None (Some ''inf''), TAC ''PRINT'' (Some ''inf'') None None])
      = Some (Inr ([TAC ''PRINT'' (Some ''inf'') None None],
           [''Applied dead_code_elimination at position 0 (reward: 25.00)'']))"
  by code_simp


text \<open>
  Claim C1 as stated fails: for the source \<open>x = 2; y = x + 3; print(y);\<close> the code after the
  constant-folding pass has no instruction that assigns a literal to \<open>y\<close>.
\<close>

theorem constant_folding_scenario_counterexample:
  "parse_source py_floats 40 ''x = 2; y = x + 3; print(y);'' = Some (Inr (Program
         [AssignmentStatement ''x'' ''='' (NumberLiteral (Finite 2)),
          AssignmentStatement ''y'' ''='' (BinaryOperation (Identifier ''x'') ''+'' (NumberLiteral (Finite 3))),
          PrintStatement (Identifier ''y'')]))
   \<and> \<not> list_ex (\<lambda>instr. result instr = Some ''y'' \<and> is_constant py_floats (arg1 instr))
        (fst (snd (constant_folding_pass py_floats
           (analyze_code py_floats py_RLOptimizer
              (fst (generate py_floats IntermediateCodeGenerator_init (Program
                 [AssignmentStatement ''x'' ''='' (NumberLiteral (Finite 2)),
                  AssignmentStatement ''y'' ''='' (BinaryOperation (Identifier ''x'') ''+'' (NumberLiteral (Finite 3))),
                  PrintStatement (Identifier ''y'')]))),
            fst (generate py_floats IntermediateCodeGenerator_init (Program
                 [AssignmentStatement ''x'' ''='' (NumberLiteral (Finite 2)),
                  AssignmentStatement ''y'' ''='' (BinaryOperation (Identifier ''x'') ''+'' (NumberLiteral (Finite 3))),
                  PrintStatement (Identifier ''y'')])),
            []))))"
  by code_simp

text \<open>
  Claim C1, as amended. The source \<open>x = 2; y = x + 3; print(y);\<close> is parsed, its program is
  lowered to the four instructions \<open>x = 2.0\<close>, \<open>t1 = x + 3.0\<close>, \<open>y = t1\<close>, \<open>PRINT y\<close>, the
  constant-folding pass of the driver leaves them as they are, and so does \<open>optimize\<close>,
  with an empty log.
\<close>

theorem constant_folding_scenario:
  "parse_source py_floats (40 + n) ''x = 2; y = x + 3; print(y);'' = Some (Inr (Program
         [AssignmentStatement ''x'' ''='' (NumberLiteral (Finite 2)),
          AssignmentStatement ''y'' ''='' (BinaryOperation (Identifier ''x'') ''+'' (NumberLiteral (Finite 3))),
          PrintStatement (Identifier ''y'')]))
   \<and> fst (generate py_floats IntermediateCodeGenerator_init (Program
         [AssignmentStatement ''x'' ''='' (NumberLiteral (Finite 2)),
          AssignmentStatement ''y'' ''='' (BinaryOperation (Identifier ''x'') ''+'' (NumberLiteral (Finite 3))),
          PrintStatement (Identifier ''y'')]))
      = [TAC ''ASSIGN'' (Some ''2.0'') None (Some ''x''),
         TAC ''+'' (Some ''x'') (Some ''3.0'') (Some ''t1''),
         TAC ''ASSIGN'' (Some ''t1'') None (Some ''y''),
         TAC ''PRINT'' (Some ''y'') None None]
   \<and> fst (snd (constant_folding_pass py_floats
        (analyze_code py_floats py_RLOptimizer
           [TAC ''ASSIGN'' (Some ''2.0'') None (Some ''x''),
            TAC ''+'' (Some ''x'') (Some ''3.0'') (Some ''t1''),
            TAC ''ASSIGN'' (Some ''t1'') None (Some ''y''),
            TAC ''PRINT'' (Some ''y'') None None],
         [TAC ''ASSIGN'' (Some ''2.0'') None (Some ''x''),
          TAC ''+'' (Some ''x'') (Some ''3.0'') (Some ''t1''),
          TAC ''ASSIGN'' (Some ''t1'') None (Some ''y''),
          TAC ''PRINT'' (Some ''y'') None None],
         [])))
      = [TAC ''ASSIGN'' (Some ''2.0'') None (Some ''x''),
         TAC ''+'' (Some ''x'') (Some ''3.0'') (Some ''t1''),
         TAC ''ASSIGN'' (Some ''t1'') None (Some ''y''),
         TAC ''PRINT'' (Some ''y'') None None]
   \<and> snd (optimize py_floats py_RLOptimizer
        [TAC ''ASSIGN'' (Some ''2.0'') None (Some ''x''),
         TAC ''+'' (Some ''x'') (Some ''3.0'') (Some ''t1''),
         TAC ''ASSIGN'' (Some ''t1'') None (Some ''y''),
         TAC ''PRINT'' (Some ''y'') None None])
      = Some (Inr ([TAC ''ASSIGN'' (Some ''2.0'') None (Some ''x''),
         TAC ''+'' (Some ''x'') (Some ''3.0'') (Some ''t1''),
         TAC ''ASSIGN'' (Some ''t1'') None (Some ''y''),
         TAC ''PRINT'' (Some ''y'') None None], []))"
proof -
  have a: "parse_source py_floats 40 ''x = 2; y = x + 3; print(y);'' = Some (Inr (Program
         [AssignmentStatement ''x'' ''='' (NumberLiteral (Finite 2)),
          AssignmentStatement ''y'' ''='' (BinaryOperation (Identifier ''x'') ''+'' (NumberLiteral (Finite 3))),
          PrintStatement (Identifier ''y'')]))"
    by code_simp
  have b: "fst (generate py_floats IntermediateCodeGenerator_init (Program
         [AssignmentStatement ''x'' ''='' (NumberLiteral (Finite 2)),
          AssignmentStatement ''y'' ''='' (BinaryOperation (Identifier ''x'') ''+'' (NumberLiteral (Finite 3))),
          PrintStatement (Identifier ''y'')]))
      = [TAC ''ASSIGN'' (Some ''2.0'') None (Some ''x''),
         TAC ''+'' (Some ''x'') (Some ''3.0'') (Some ''t1''),
         TAC ''ASSIGN'' (Some ''t1'') None (Some ''y''),
         TAC ''PRINT'' (Some ''y'') None None]"
    by code_simp
  have c: "fst (snd (constant_folding_pass py_floats
        (analyze_code py_floats py_RLOptimizer
           [TAC ''ASSIGN'' (Some ''2.0'') None (Some ''x''),
            TAC ''+'' (Some ''x'') (Some ''3.0'') (Some ''t1''),
            TAC ''ASSIGN'' (Some ''t1'') None (Some ''y''),
            TAC ''PRINT'' (Some ''y'') None None],
         [TAC ''ASSIGN'' (Some ''2.0'') None (Some ''x''),
          TAC ''+'' (Some ''x'') (Some ''3.0'') (Some ''t1''),
          TAC ''ASSIGN'' (Some ''t1'') None (Some ''y''),
          TAC ''PRINT'' (Some ''y'') None None],
         [])))
      = [TAC ''ASSIGN'' (Some ''2.0'') None (Some ''x''),
         TAC ''+'' (Some ''x'') (Some ''3.0'') (Some ''t1''),
         TAC ''ASSIGN'' (Some ''t1'') None (Some ''y''),
         TAC ''PRINT'' (Some ''y'') None None]"
    by code_simp
  have d: "snd (optimize py_floats py_RLOptimizer
        [TAC ''ASSIGN'' (Some ''2.0'') None (Some ''x''),
         TAC ''+'' (Some ''x'') (Some ''3.0'') (Some ''t1''),
         TAC ''ASSIGN'' (Some ''t1'') None (Some ''y''),
         TAC ''PRINT'' (Some ''y'') None None])
      = Some (Inr ([TAC ''ASSIGN'' (Some ''2.0'') None (Some ''x''),
         TAC ''+'' (Some ''x'') (Some ''3.0'') (Some ''t1''),
         TAC ''ASSIGN'' (Some ''t1'') None (Some ''y''),
         TAC ''PRINT'' (Some ''y'') None None], []))"
    by code_simp
  show ?thesis
    using parse_source_fuel_mono[OF a, of n] b c d by blast
qed



end
